theory Spec2Isabelle
  imports Main "HOL-Library.Word"
begin

unbundle bit_operations_syntax

section \<open>Task contexts of the DART tasking runtime\<close>

text \<open>
  A shallow embedding of the context management of the DART tasking layer
  (\<^verbatim>\<open>dart_tasking_context.c\<close>): the per-thread list of context blocks, the
  creation, release, activation and teardown of contexts, and the page
  rounding of stack sizes.

  Addresses and \<^verbatim>\<open>size_t\<close> values are 64-bit words, so sums wrap around as
  they do in C. A pointer that may be \<^verbatim>\<open>NULL\<close> is an \<open>option\<close>.
\<close>

subsection \<open>Data model\<close>

type_synonym addr = "64 word"
type_synonym size_t = "64 word"

text \<open>Function pointers handed to \<^verbatim>\<open>context_create\<close> are opaque identifiers.\<close>

type_synonym fn_ptr = nat

text \<open>
  What this file stores into the \<^verbatim>\<open>ucontext_t\<close> of a context:
  uninitialised memory, the state captured by \<^verbatim>\<open>getcontext\<close>, or a start at
  the entry trampoline installed by \<^verbatim>\<open>makecontext\<close>.
\<close>

datatype uc_state = Uc_Uninitialised | Uc_Getcontext | Uc_Entry

text \<open>
  \<^verbatim>\<open>struct context_list_s\<close>, with the fields of the embedded \<^verbatim>\<open>context_t ctx\<close>
  flattened (prefix \<open>ctx_\<close>). The fields \<^verbatim>\<open>next\<close>, \<^verbatim>\<open>length\<close> and \<^verbatim>\<open>size\<close>
  carry the suffix \<open>_fld\<close>. \<^verbatim>\<open>ub_guard\<close> and \<^verbatim>\<open>size\<close> exist only in builds with
  \<^verbatim>\<open>USE_MPROTECT\<close> and \<^verbatim>\<open>USE_MMAP\<close>; other builds never touch them.
  \<^verbatim>\<open>length\<close> is a C \<^verbatim>\<open>int\<close>; the only arithmetic on it is an increment of a
  value that is at most 10, so it is modelled as an unbounded integer.
\<close>

record context_list_s =
  next_fld :: "addr option"
  ctx_uc :: uc_state
  ctx_uc_link :: "addr option"
  ctx_ss_sp :: addr
  ctx_ss_size :: size_t
  ctx_ss_flags :: int
  ctx_fn :: "fn_ptr option"
  ctx_arg :: "addr option"
  stack :: addr
  length_fld :: int
  ub_guard :: addr
  size_fld :: size_t

datatype log_entry = Warn string | Error string

text \<open>
  The state one worker thread sees: the context blocks that are allocated
  (\<open>heap\<close>, keyed by block address), the 8-byte words of stack memory that the
  stack guards use (\<open>mem64\<close>, keyed by the address of the word),
  \<^verbatim>\<open>thread->ctxlist\<close>, the file-level statics \<^verbatim>\<open>task_stack_size\<close> and
  \<^verbatim>\<open>page_size\<close>, and the messages logged so far.
\<close>

record dart_state =
  heap :: "addr \<Rightarrow> context_list_s option"
  mem64 :: "addr \<Rightarrow> 64 word"
  ctxlist :: "addr option"
  task_stack_size :: size_t
  page_size :: size_t
  log :: "log_entry list"

text \<open>
  Build switches and platform constants: the preprocessor symbols of the
  file, \<^verbatim>\<open>sizeof(context_list_t)\<close>, and whether \<^verbatim>\<open>mprotect\<close> on a given guard
  address succeeds.
\<close>

record platform =
  USE_UCONTEXT :: bool
  DART_DEBUG :: bool
  USE_MMAP :: bool
  USE_MPROTECT :: bool
  sizeof_context_list_t :: size_t
  mprotect_ok :: "addr \<Rightarrow> bool"

text \<open>
  Ways a call ends without returning to its caller: a failed assertion
  aborts the process; a dereference of a pointer that names no allocated
  block has no defined behaviour in C and is kept apart.
\<close>

datatype failure = Assertion string | Invalid_Pointer

datatype dart_ret_t = DART_OK | DART_ERR_OTHER

definition DEFAULT_TASK_STACK_SIZE :: size_t where
  "DEFAULT_TASK_STACK_SIZE = push_bit 14 1"

definition PER_THREAD_CTX_STORE :: int where
  "PER_THREAD_CTX_STORE = 10"

definition STACK_GUARD :: "64 word" where
  "STACK_GUARD = 0xDEADBEEF"

text \<open>The statics as the program starts: no block, an empty list, no page size yet.\<close>

definition initial_state :: dart_state where
  "initial_state =
     \<lparr>heap = (\<lambda>_. None), mem64 = (\<lambda>_. 0), ctxlist = None,
      task_stack_size = DEFAULT_TASK_STACK_SIZE, page_size = 0, log = []\<rparr>"

subsection \<open>Page rounding and initialisation\<close>

text \<open>\<^verbatim>\<open>dart__tasking__context_adjust_size\<close>, with the static \<^verbatim>\<open>page_size\<close> as argument.\<close>

definition context_adjust_size :: "size_t \<Rightarrow> size_t \<Rightarrow> size_t" where
  "context_adjust_size pgsz sz = (let mask = pgsz - 1 in (sz + mask) AND NOT mask)"

text \<open>
  \<^verbatim>\<open>dart__tasking__context_init\<close>. \<open>sc_pagesize\<close> is the value of
  \<^verbatim>\<open>sysconf(_SC_PAGESIZE)\<close> and \<open>env\<close> the value of
  \<^verbatim>\<open>dart__base__env__task_stacksize()\<close>, both as stored into a \<^verbatim>\<open>size_t\<close>.
  The test \<^verbatim>\<open>env_stack_size > -1\<close> compares two \<^verbatim>\<open>size_t\<close> values: the
  \<^verbatim>\<open>int\<close> constant is converted to the unsigned type.
\<close>

definition context_init :: "size_t \<Rightarrow> size_t \<Rightarrow> dart_state \<Rightarrow> dart_state" where
  "context_init sc_pagesize env s =
     (let s1 = s\<lparr>page_size := sc_pagesize\<rparr>;
          env_stack_size = env;
          s2 = (if env_stack_size > (- 1) then s1\<lparr>task_stack_size := env_stack_size\<rparr> else s1)
      in if task_stack_size s2 < page_size s2
         then s2\<lparr>task_stack_size := page_size s2\<rparr> else s2)"

subsection \<open>The thread's list of context blocks\<close>

text \<open>
  Modelled from the spec: the macros \<^verbatim>\<open>DART_STACK_PUSH\<close> and \<^verbatim>\<open>DART_STACK_POP\<close>
  come from a header of the runtime that is not among the sources. The list
  is a LIFO, singly linked through the forward link of the blocks: a push
  links the element in front of the head; a pop detaches the head, which is
  \<^verbatim>\<open>NULL\<close> for an empty list, and clears its forward link, since the link is
  used only while the block sits in the list.
\<close>

definition DART_STACK_PUSH :: "addr \<Rightarrow> dart_state \<Rightarrow> failure + dart_state" where
  "DART_STACK_PUSH elem s =
     (case heap s elem of
        None \<Rightarrow> Inl Invalid_Pointer
      | Some b \<Rightarrow>
          Inr (s\<lparr>heap := (heap s)(elem \<mapsto> b\<lparr>next_fld := ctxlist s\<rparr>),
                 ctxlist := Some elem\<rparr>))"

definition DART_STACK_POP :: "dart_state \<Rightarrow> failure + (addr option \<times> dart_state)" where
  "DART_STACK_POP s =
     (case ctxlist s of
        None \<Rightarrow> Inr (None, s)
      | Some elem \<Rightarrow>
          (case heap s elem of
             None \<Rightarrow> Inl Invalid_Pointer
           | Some b \<Rightarrow>
               Inr (Some elem,
                    s\<lparr>heap := (heap s)(elem \<mapsto> b\<lparr>next_fld := None\<rparr>),
                      ctxlist := next_fld b\<rparr>)))"

text \<open>
  The addresses of the blocks reached from a pointer along the forward
  links, up to \<^verbatim>\<open>NULL\<close>: \<open>ctx_path h p as\<close> holds when \<open>as\<close> is that sequence.
\<close>

fun ctx_path :: "(addr \<Rightarrow> context_list_s option) \<Rightarrow> addr option \<Rightarrow> addr list \<Rightarrow> bool" where
  "ctx_path h p [] = (p = None)"
| "ctx_path h p (a # as) =
     (p = Some a \<and> (case h a of None \<Rightarrow> False | Some b \<Rightarrow> ctx_path h (next_fld b) as))"

subsection \<open>Entry trampoline\<close>

text \<open>
  Modelled from the spec: \<^verbatim>\<open>DART_ASSERT\<close>, \<^verbatim>\<open>DART_ASSERT_MSG\<close> and
  \<^verbatim>\<open>DART_ASSERT_RETURNS\<close> come from a header that is not among the sources.
  A failed assertion is the fatal-abort primitive with a message: the
  process ends there, which is the result \<open>Inl (Assertion msg)\<close>.
\<close>

text \<open>
  \<^verbatim>\<open>dart__tasking__context_entry\<close>. The task function is foreign code:
  \<open>call f arg s\<close> is \<open>None\<close> when \<open>f\<close> never returns to the trampoline (it
  switches to another context for good) and \<open>Some s'\<close> when it returns in
  state \<open>s'\<close>. The trampoline itself never returns: either control has left
  it, or the process has ended.
\<close>

datatype entry_outcome = Control_Left | Entry_Failed failure

definition context_entry ::
  "(fn_ptr \<Rightarrow> addr option \<Rightarrow> dart_state \<Rightarrow> dart_state option) \<Rightarrow> dart_state \<Rightarrow> entry_outcome" where
  "context_entry call s =
     (case DART_STACK_POP s of
        Inl e \<Rightarrow> Entry_Failed e
      | Inr (None, s1) \<Rightarrow> Entry_Failed (Assertion ''ctxlist != NULL'')
      | Inr (Some c, s1) \<Rightarrow>
          (case heap s1 c of
             None \<Rightarrow> Entry_Failed Invalid_Pointer
           | Some b \<Rightarrow>
               (let fn = ctx_fn b;
                    arg = ctx_arg b;
                    s2 = s1\<lparr>heap := (heap s1)(c \<mapsto> b\<lparr>ctx_fn := None, ctx_arg := None\<rparr>)\<rparr>
                in case fn of
                     None \<Rightarrow> Entry_Failed Invalid_Pointer
                   | Some f \<Rightarrow>
                       (case call f arg s2 of
                          None \<Rightarrow> Control_Left
                        | Some s3 \<Rightarrow>
                            Entry_Failed
                              (Assertion ''task context invocation function returned!'')))))"

subsection \<open>Allocation and release of stack regions\<close>

text \<open>
  \<^verbatim>\<open>dart__tasking__context_allocate\<close>. \<open>os_alloc size\<close> is the answer of
  \<^verbatim>\<open>mmap\<close> or \<^verbatim>\<open>posix_memalign\<close> to a request for \<open>size\<close> bytes: \<open>None\<close> when
  it fails, otherwise the address of the region and the block that its
  uninitialised memory happens to hold.
\<close>

definition context_allocate ::
  "platform \<Rightarrow> (size_t \<Rightarrow> (addr \<times> context_list_s) option) \<Rightarrow> dart_state
     \<Rightarrow> failure + (addr \<times> dart_state)" where
  "context_allocate p os_alloc s =
     (let size = (if USE_MPROTECT p
                  then context_adjust_size (page_size s) (sizeof_context_list_t p)
                       + context_adjust_size (page_size s) (task_stack_size s)
                       + page_size s
                  else context_adjust_size (page_size s) (sizeof_context_list_t p)
                       + context_adjust_size (page_size s) (task_stack_size s))
      in case os_alloc size of
           None \<Rightarrow>
             Inl (Assertion (if USE_MMAP p then ''Failed to mmap new stack!''
                             else ''posix_memalign((void**)&ctxlist, page_size, size) == 0''))
         | Some (ctxlist_p, raw) \<Rightarrow>
             (let b0 = (if USE_MMAP p then raw\<lparr>size_fld := size\<rparr> else raw);
                  b1 = b0\<lparr>stack := ctxlist_p + page_size s, next_fld := None, length_fld := 0\<rparr>;
                  b2 = (if USE_MPROTECT p
                        then b1\<lparr>ub_guard := stack b1 + task_stack_size s\<rparr> else b1);
                  s1 = (if USE_MPROTECT p \<and> \<not> mprotect_ok p (ub_guard b2)
                        then s\<lparr>log := log s @ [Warn ''Failed to mprotect upper bound page'']\<rparr>
                        else s)
              in Inr (ctxlist_p, s1\<lparr>heap := (heap s1)(ctxlist_p \<mapsto> b2)\<rparr>)))"

text \<open>\<^verbatim>\<open>dart__tasking__context_free\<close>: the block leaves the heap.\<close>

definition context_free :: "platform \<Rightarrow> addr \<Rightarrow> dart_state \<Rightarrow> failure + dart_state" where
  "context_free p ctxlist_p s =
     (case heap s ctxlist_p of
        None \<Rightarrow> Inl Invalid_Pointer
      | Some b \<Rightarrow>
          (let s1 = (if USE_MPROTECT p \<and> \<not> mprotect_ok p (ub_guard b)
                     then s\<lparr>log := log s @ [Warn ''Failed to mprotect upper bound page'']\<rparr>
                     else s)
           in Inr (s1\<lparr>heap := (heap s1)(ctxlist_p := None)\<rparr>)))"

subsection \<open>The lifecycle operations\<close>

text \<open>
  A \<^verbatim>\<open>context_t*\<close> points into its block; \<^verbatim>\<open>offsetof\<close> arithmetic recovers the
  block from it. The model names a context by the address of its block.

  \<^verbatim>\<open>dart__tasking__context_create\<close>. Without \<^verbatim>\<open>USE_UCONTEXT\<close> the body is
  compiled out and the function returns \<^verbatim>\<open>NULL\<close>.
\<close>

definition context_create ::
  "platform \<Rightarrow> (size_t \<Rightarrow> (addr \<times> context_list_s) option) \<Rightarrow> fn_ptr option \<Rightarrow> addr option
     \<Rightarrow> dart_state \<Rightarrow> failure + (addr option \<times> dart_state)" where
  "context_create p os_alloc fn arg s =
     (if \<not> USE_UCONTEXT p then Inr (None, s)
      else
        (case (case ctxlist s of
                 None \<Rightarrow> Inr (None, s)
               | Some hd_p \<Rightarrow>
                   (case heap s hd_p of
                      None \<Rightarrow> Inl Invalid_Pointer
                    | Some hb \<Rightarrow>
                        Inr (Some hd_p,
                             s\<lparr>heap := (heap s)(hd_p \<mapsto> hb\<lparr>length_fld := 0\<rparr>),
                               ctxlist := next_fld hb\<rparr>))) of
           Inl e \<Rightarrow> Inl e
         | Inr (res0, s1) \<Rightarrow>
             (case (case res0 of
                      Some r \<Rightarrow> Inr (r, s1)
                    | None \<Rightarrow>
                        (case context_allocate p os_alloc s1 of
                           Inl e \<Rightarrow> Inl e
                         | Inr (ctxlist_p, s2) \<Rightarrow>
                             (case heap s2 ctxlist_p of
                                None \<Rightarrow> Inl Invalid_Pointer
                              | Some b \<Rightarrow>
                                  Inr (ctxlist_p,
                                       s2\<lparr>heap := (heap s2)(ctxlist_p \<mapsto>
                                            b\<lparr>next_fld := None,
                                              ctx_uc := Uc_Getcontext,
                                              ctx_uc_link := None,
                                              ctx_ss_sp := stack b,
                                              ctx_ss_size := task_stack_size s2,
                                              ctx_ss_flags := 0\<rparr>)\<rparr>)))) of
                Inl e \<Rightarrow> Inl e
              | Inr (res, s3) \<Rightarrow>
                  (case heap s3 res of
                     None \<Rightarrow> Inl Invalid_Pointer
                   | Some rb \<Rightarrow>
                       (let s4 = (if DART_DEBUG p
                                  then (let stk = ctx_ss_sp rb
                                        in s3\<lparr>mem64 := (mem64 s3)
                                              (stk := STACK_GUARD,
                                               stk + task_stack_size s3 - 8 := STACK_GUARD)\<rparr>)
                                  else s3)
                        in Inr (Some res,
                                s4\<lparr>heap := (heap s4)(res \<mapsto>
                                     rb\<lparr>ctx_uc := Uc_Entry, ctx_fn := fn, ctx_arg := arg\<rparr>)\<rparr>))))))"

text \<open>
  \<^verbatim>\<open>dart__tasking__context_release\<close>. The guard check reads the two words
  that \<^verbatim>\<open>context_create\<close> wrote; the block is then freed or pushed.
\<close>

definition context_release :: "platform \<Rightarrow> addr \<Rightarrow> dart_state \<Rightarrow> failure + dart_state" where
  "context_release p ctx s =
     (if \<not> USE_UCONTEXT p
      then Inl (Assertion ''Cannot call dart__tasking__context_release without UCONTEXT support!'')
      else
        (case heap s ctx of
           None \<Rightarrow> Inl Invalid_Pointer
         | Some cb \<Rightarrow>
             (let s1 = (if DART_DEBUG p
                        then (let stk = ctx_ss_sp cb
                              in if mem64 s stk \<noteq> STACK_GUARD
                                    \<and> mem64 s (stk + task_stack_size s - 8) \<noteq> STACK_GUARD
                                 then s\<lparr>log := log s @
                                        [Warn ''Possible TASK STACK OVERFLOW detected!'']\<rparr>
                                 else s)
                        else s)
              in case (case ctxlist s1 of
                         None \<Rightarrow> Inr None
                       | Some hd_p \<Rightarrow>
                           (case heap s1 hd_p of
                              None \<Rightarrow> Inl Invalid_Pointer
                            | Some hb \<Rightarrow> Inr (Some (length_fld hb)))) of
                   Inl e \<Rightarrow> Inl e
                 | Inr hd_length \<Rightarrow>
                     (if (case hd_length of None \<Rightarrow> False
                          | Some n \<Rightarrow> n > PER_THREAD_CTX_STORE)
                      then context_free p ctx s1
                      else
                        (let l = (case hd_length of None \<Rightarrow> 0 | Some n \<Rightarrow> n);
                             s2 = s1\<lparr>heap := (heap s1)(ctx \<mapsto> cb\<lparr>length_fld := l + 1\<rparr>)\<rparr>
                         in DART_STACK_PUSH ctx s2)))))"

text \<open>
  \<^verbatim>\<open>dart__tasking__context_invoke\<close>. \<^verbatim>\<open>setcontext\<close> hands control to the
  context and does not come back: the result names the context entered and
  the state at that moment.
\<close>

definition context_invoke :: "platform \<Rightarrow> addr \<Rightarrow> dart_state \<Rightarrow> failure + (addr \<times> dart_state)" where
  "context_invoke p ctx s =
     (if \<not> USE_UCONTEXT p
      then Inl (Assertion ''Cannot call dart__tasking__context_invoke without UCONTEXT support!'')
      else
        (case heap s ctx of
           None \<Rightarrow> Inl Invalid_Pointer
         | Some cb \<Rightarrow>
             (case (if ctx_fn cb \<noteq> None then DART_STACK_PUSH ctx s else Inr s) of
                Inl e \<Rightarrow> Inl e
              | Inr s1 \<Rightarrow> Inr (ctx, s1))))"

text \<open>
  \<^verbatim>\<open>dart__tasking__context_swap\<close>. \<open>swapcontext old new s\<close> is the low-level
  switch: it gives the value that \<^verbatim>\<open>swapcontext\<close> returns to this call
  (\<open>- 1\<close> when it fails, \<open>0\<close> when the flow is resumed later) and the state
  found at that moment.
\<close>

definition context_swap ::
  "platform \<Rightarrow> (addr \<Rightarrow> addr \<Rightarrow> dart_state \<Rightarrow> int \<times> dart_state) \<Rightarrow> addr \<Rightarrow> addr
     \<Rightarrow> dart_state \<Rightarrow> failure + (dart_ret_t \<times> dart_state)" where
  "context_swap p swapcontext old_ctx new_ctx s =
     (if \<not> USE_UCONTEXT p
      then Inl (Assertion ''Cannot call dart__tasking__context_swap without UCONTEXT support!'')
      else
        (case heap s new_ctx of
           None \<Rightarrow> Inl Invalid_Pointer
         | Some nb \<Rightarrow>
             (case (if ctx_fn nb \<noteq> None then DART_STACK_PUSH new_ctx s else Inr s) of
                Inl e \<Rightarrow> Inl e
              | Inr s1 \<Rightarrow>
                  (case heap s1 old_ctx of
                     None \<Rightarrow> Inl Invalid_Pointer
                   | Some ob \<Rightarrow>
                       (let s2 = (if ctx_fn ob \<noteq> None
                                  then s1\<lparr>heap := (heap s1)(old_ctx \<mapsto>
                                         ob\<lparr>ctx_fn := None, ctx_arg := None\<rparr>)\<rparr>
                                  else s1);
                            (ret, s3) = swapcontext old_ctx new_ctx s2
                        in if ret = - 1
                           then Inr (DART_ERR_OTHER,
                                     s3\<lparr>log := log s3 @ [Error ''Call to swapcontext failed!'']\<rparr>)
                           else Inr (DART_OK, s3))))))"

text \<open>
  The loop of \<^verbatim>\<open>dart__tasking__context_cleanup\<close>. On a list whose links
  form a cycle of allocated blocks nothing bounds it, so it is a partial
  function: \<open>None\<close> is a loop that never ends.
\<close>

partial_function (option) cleanup_loop :: "platform \<Rightarrow> dart_state \<Rightarrow> (failure + dart_state) option" where
  "cleanup_loop p s =
     (if ctxlist s \<noteq> None
      then (case DART_STACK_POP s of
              Inl e \<Rightarrow> Some (Inl e)
            | Inr (popped, s1) \<Rightarrow>
                (case popped of
                   None \<Rightarrow> Some (Inl Invalid_Pointer)
                 | Some ctxlist_p \<Rightarrow>
                     (case context_free p ctxlist_p s1 of
                        Inl e \<Rightarrow> Some (Inl e)
                      | Inr s2 \<Rightarrow> cleanup_loop p s2)))
      else Some (Inr s))"

definition context_cleanup :: "platform \<Rightarrow> dart_state \<Rightarrow> (failure + dart_state) option" where
  "context_cleanup p s =
     (if \<not> USE_UCONTEXT p
      then Some (Inl (Assertion
             ''Cannot call dart__tasking__context_cleanup without UCONTEXT support!''))
      else cleanup_loop p s)"

subsection \<open>The pool as a depth-counted list\<close>

text \<open>
  \<open>depth_ok h as\<close>: every block of the list \<open>as\<close> stores in \<^verbatim>\<open>length\<close> its
  depth, counted from the far end, so the head stores the number of blocks.
\<close>

fun depth_ok :: "(addr \<Rightarrow> context_list_s option) \<Rightarrow> addr list \<Rightarrow> bool" where
  "depth_ok h [] = True"
| "depth_ok h (a # as) =
     ((case h a of None \<Rightarrow> False | Some b \<Rightarrow> length_fld b = int (length (a # as)))
      \<and> depth_ok h as)"

definition pool_inv :: "dart_state \<Rightarrow> addr list \<Rightarrow> bool" where
  "pool_inv s as = (ctx_path (heap s) (ctxlist s) as \<and> depth_ok (heap s) as)"

text \<open>
  The states a thread reaches with \<^verbatim>\<open>context_create\<close>, \<^verbatim>\<open>context_release\<close>
  and \<^verbatim>\<open>context_cleanup\<close>, starting with an empty list, with the
  activations that lie between a create and a release. \<open>L\<close> is the set of
  contexts handed out by \<^verbatim>\<open>context_create\<close> and not yet released, the only
  ones a caller may activate or release; \<open>as\<close> is the content of the pool,
  head first.

  A first activation is \<^verbatim>\<open>context_invoke\<close>, or a \<^verbatim>\<open>context_swap\<close> whose
  switch succeeds, followed by the entry trampoline: the thread goes on in
  the state \<open>s2\<close> in which the trampoline calls the task function, which is
  the state such that, whatever the task function does, the outcome of the
  trampoline is that of calling it in \<open>s2\<close>. In the rules for
  \<^verbatim>\<open>context_swap\<close> the switch is one that succeeds and passes the state on
  as it is, so that \<open>s1\<close> is the state at the moment of the switch. A switch
  that fails is not a step of this relation.
\<close>

inductive ctx_reach :: "platform \<Rightarrow> dart_state \<Rightarrow> addr set \<Rightarrow> addr list \<Rightarrow> bool"
  for p :: platform where
  start: "ctxlist s = None \<Longrightarrow> ctx_reach p s {} []"
| create: "ctx_reach p s L as \<Longrightarrow> context_create p os_alloc fn arg s = Inr (Some c, s')
           \<Longrightarrow> ctx_reach p s' (insert c L) (tl as)"
| enter: "ctx_reach p s L as \<Longrightarrow> ctx \<in> L \<Longrightarrow> heap s ctx = Some cb \<Longrightarrow> ctx_fn cb \<noteq> None
           \<Longrightarrow> context_invoke p ctx s = Inr (ctx, s1)
           \<Longrightarrow> \<forall>call. context_entry call s1 =
                  (case call f a s2 of
                     None \<Rightarrow> Control_Left
                   | Some s3 \<Rightarrow>
                       Entry_Failed (Assertion ''task context invocation function returned!''))
           \<Longrightarrow> ctx_reach p s2 L as"
| swap_resume: "ctx_reach p s L as \<Longrightarrow> old_ctx \<in> L \<Longrightarrow> new_ctx \<in> L
           \<Longrightarrow> heap s new_ctx = Some nb \<Longrightarrow> ctx_fn nb = None
           \<Longrightarrow> context_swap p (\<lambda>_ _ x. (0, x)) old_ctx new_ctx s = Inr (DART_OK, s1)
           \<Longrightarrow> ctx_reach p s1 L as"
| swap_enter: "ctx_reach p s L as \<Longrightarrow> old_ctx \<in> L \<Longrightarrow> new_ctx \<in> L \<Longrightarrow> old_ctx \<noteq> new_ctx
           \<Longrightarrow> heap s new_ctx = Some nb \<Longrightarrow> ctx_fn nb \<noteq> None
           \<Longrightarrow> context_swap p (\<lambda>_ _ x. (0, x)) old_ctx new_ctx s = Inr (DART_OK, s1)
           \<Longrightarrow> \<forall>call. context_entry call s1 =
                  (case call f a s2 of
                     None \<Rightarrow> Control_Left
                   | Some s3 \<Rightarrow>
                       Entry_Failed (Assertion ''task context invocation function returned!''))
           \<Longrightarrow> ctx_reach p s2 L as"
| release: "ctx_reach p s L as \<Longrightarrow> ctx \<in> L \<Longrightarrow> context_release p ctx s = Inr s'
           \<Longrightarrow> ctx_reach p s' (L - {ctx}) (if ctxlist s' = Some ctx then ctx # as else as)"
| cleanup: "ctx_reach p s L as \<Longrightarrow> context_cleanup p s = Some (Inr s')
           \<Longrightarrow> ctx_reach p s' L []"

text \<open>Releasing a sequence of contexts, one call after the other.\<close>

fun release_all :: "platform \<Rightarrow> addr list \<Rightarrow> dart_state \<Rightarrow> failure + dart_state" where
  "release_all p [] s = Inr s"
| "release_all p (c # cs) s =
     (case context_release p c s of Inl e \<Rightarrow> Inl e | Inr s' \<Rightarrow> release_all p cs s')"

subsection \<open>Example inputs\<close>

text \<open>
  Concrete inputs on which the theorems below are exercised: a diagnostic
  build with ucontext support, heap allocation and no guard pages; the
  content of freshly allocated memory; a block as \<^verbatim>\<open>context_create\<close> leaves
  it, for 4 KiB pages and 16 KiB stacks; and a state with two such contexts,
  both with a pending entry function, and an empty list.
\<close>

definition example_platform :: platform where
  "example_platform =
     \<lparr>USE_UCONTEXT = True, DART_DEBUG = True, USE_MMAP = False, USE_MPROTECT = False,
      sizeof_context_list_t = 1000, mprotect_ok = (\<lambda>_. True)\<rparr>"

definition example_raw :: context_list_s where
  "example_raw =
     \<lparr>next_fld = None, ctx_uc = Uc_Uninitialised, ctx_uc_link = None, ctx_ss_sp = 0,
      ctx_ss_size = 0, ctx_ss_flags = 0, ctx_fn = None, ctx_arg = None, stack = 0,
      length_fld = 0, ub_guard = 0, size_fld = 0\<rparr>"

definition example_block :: "addr \<Rightarrow> fn_ptr option \<Rightarrow> context_list_s" where
  "example_block a f =
     \<lparr>next_fld = None, ctx_uc = Uc_Entry, ctx_uc_link = None, ctx_ss_sp = a + 4096,
      ctx_ss_size = 16384, ctx_ss_flags = 0, ctx_fn = f, ctx_arg = None, stack = a + 4096,
      length_fld = 0, ub_guard = 0, size_fld = 0\<rparr>"

definition example_state :: dart_state where
  "example_state =
     \<lparr>heap = (\<lambda>_. None)(0x10000 \<mapsto> example_block 0x10000 (Some 1),
                            0x20000 \<mapsto> example_block 0x20000 (Some 2)),
      mem64 = (\<lambda>_. 0), ctxlist = None,
      task_stack_size = 16384, page_size = 4096, log = []\<rparr>"

text \<open>
  The state after \<^verbatim>\<open>context_init\<close> and one \<^verbatim>\<open>context_create\<close> at address
  \<open>0x10000\<close> (the guard words lie at \<open>69632\<close> and \<open>86008\<close>), the state after
  releasing that context again, and a state with twelve contexts in use.
\<close>

definition example_created :: dart_state where
  "example_created =
     \<lparr>heap = (\<lambda>_. None)(0x10000 \<mapsto> example_block 0x10000 (Some 1)),
      mem64 = (\<lambda>_. 0)(69632 := STACK_GUARD, 86008 := STACK_GUARD),
      ctxlist = None, task_stack_size = 16384, page_size = 4096, log = []\<rparr>"

definition example_pooled :: dart_state where
  "example_pooled =
     example_created
       \<lparr>heap := (heap example_created)
                  (0x10000 \<mapsto> (example_block 0x10000 (Some 1))\<lparr>length_fld := 1\<rparr>),
        ctxlist := Some 0x10000\<rparr>"

definition example_contexts :: "addr list" where
  "example_contexts =
     [0x10000, 0x20000, 0x30000, 0x40000, 0x50000, 0x60000,
      0x70000, 0x80000, 0x90000, 0xA0000, 0xB0000, 0xC0000]"

definition example_live_state :: dart_state where
  "example_live_state =
     \<lparr>heap = foldr (\<lambda>a h. h(a \<mapsto> example_block a None)) example_contexts (\<lambda>_. None),
      mem64 = (\<lambda>_. 0), ctxlist = None,
      task_stack_size = 16384, page_size = 4096, log = []\<rparr>"

text \<open>
  Three contexts created one after the other at \<open>0x10000\<close>, \<open>0x20000\<close> and
  \<open>0x30000\<close>; the state in which \<^verbatim>\<open>context_invoke\<close> hands control to the
  first, and the state in which its task function is entered; the states
  after releasing the first and then the second context.
\<close>

definition example_created2 :: dart_state where
  "example_created2 =
     example_created
       \<lparr>heap := (heap example_created)(0x20000 \<mapsto> example_block 0x20000 (Some 2)),
        mem64 := (mem64 example_created)(135168 := STACK_GUARD, 151544 := STACK_GUARD)\<rparr>"

definition example_created3 :: dart_state where
  "example_created3 =
     example_created2
       \<lparr>heap := (heap example_created2)(0x30000 \<mapsto> example_block 0x30000 (Some 3)),
        mem64 := (mem64 example_created2)(200704 := STACK_GUARD, 217080 := STACK_GUARD)\<rparr>"

definition example_invoked :: dart_state where
  "example_invoked =
     example_created3
       \<lparr>heap := (heap example_created3)(0x10000 \<mapsto> example_block 0x10000 (Some 1)),
        ctxlist := Some 0x10000\<rparr>"

definition example_entered :: dart_state where
  "example_entered =
     example_created3\<lparr>heap := (heap example_created3)(0x10000 \<mapsto> example_block 0x10000 None)\<rparr>"

definition example_one_pooled :: dart_state where
  "example_one_pooled =
     example_entered
       \<lparr>heap := (heap example_entered)
                  (0x10000 \<mapsto> (example_block 0x10000 None)\<lparr>length_fld := 1\<rparr>),
        ctxlist := Some 0x10000\<rparr>"

definition example_two_pooled :: dart_state where
  "example_two_pooled =
     example_one_pooled
       \<lparr>heap := (heap example_one_pooled)
                  (0x20000 \<mapsto> (example_block 0x20000 (Some 2))
                                 \<lparr>length_fld := 2, next_fld := Some 0x10000\<rparr>),
        ctxlist := Some 0x20000\<rparr>"

section \<open>Properties\<close>

subsection \<open>Page rounding\<close>

lemma and_not_mask_minus: "(x::64 word) AND NOT (mask k) = x - take_bit k x"
proof -
  have "NOT x AND take_bit k x = 0"
    by (rule bit_eqI) (auto simp add: bit_and_iff bit_not_iff bit_take_bit_iff)
  then have "x - take_bit k x = x AND NOT (take_bit k x)"
    by (rule disjunctive_diff_eq_and_not)
  also have "\<dots> = x AND NOT (mask k)"
    by (rule bit_eqI) (auto simp add: bit_and_iff bit_not_iff bit_take_bit_iff bit_mask_iff)
  finally show ?thesis by simp
qed

lemma unat_take_bit_mod: "unat (take_bit k (x::64 word)) = unat x mod 2 ^ k"
  unfolding unsigned_take_bit_eq by (rule take_bit_eq_mod)

lemma unat_and_not_mask: "unat ((x::64 word) AND NOT (mask k)) = unat x - unat x mod 2 ^ k"
proof -
  have "unat (take_bit k x) \<le> unat x"
    by (simp only: unat_take_bit_mod) simp
  then have le: "take_bit k x \<le> x"
    by (simp only: word_le_nat_alt)
  show ?thesis
    by (simp only: and_not_mask_minus unat_sub [OF le] unat_take_bit_mod)
qed

text \<open>Rounding up on the natural numbers: subtract the remainder of \<open>n + (P - 1)\<close>.\<close>

lemma round_up_nat:
  fixes n P :: nat
  assumes "0 < P"
  defines "r \<equiv> (n + (P - 1)) - (n + (P - 1)) mod P"
  shows "P dvd r" and "n \<le> r" and "r < n + P" and "P dvd n \<Longrightarrow> r = n"
proof -
  show "P dvd r" unfolding r_def by (simp add: dvd_minus_mod)
  have lt: "(n + (P - 1)) mod P < P" using assms(1) by simp
  then show "n \<le> r" unfolding r_def by linarith
  show "r < n + P" unfolding r_def using assms(1) by linarith
  show "r = n" if "P dvd n"
  proof -
    from that obtain q where "n = P * q" by (auto simp: dvd_def)
    have "(P * q + (P - 1)) mod P = (P - 1) mod P" by (rule mod_mult_self4)
    also have "\<dots> = P - 1" using assms(1) by simp
    finally have "(n + (P - 1)) mod P = P - 1" using \<open>n = P * q\<close> by simp
    then show ?thesis unfolding r_def by simp
  qed
qed

text \<open>
  As long as \<open>sz + (page size - 1)\<close> does not wrap around, the word
  computation is the rounding on the naturals.
\<close>

lemma adjust_unat:
  assumes "k < 64" "unat sz + (2 ^ k - 1) < 2 ^ 64"
  shows "unat (context_adjust_size (2 ^ k) sz)
           = (unat sz + (2 ^ k - 1)) - (unat sz + (2 ^ k - 1)) mod 2 ^ k"
proof -
  have m: "(2 ^ k :: 64 word) - 1 = mask k" by (simp add: mask_eq_exp_minus_1)
  have lt: "(2::nat) ^ k < 2 ^ 64"
    by (rule power_strict_increasing [OF assms(1)]) simp
  have "unat (of_nat (2 ^ k) :: 64 word) = 2 ^ k"
    using lt by (simp only: unat_of_nat len_of_numeral_defs) simp
  then have p2: "unat (2 ^ k :: 64 word) = 2 ^ k"
    by simp
  have nz: "(2 ^ k :: 64 word) \<noteq> 0"
    using assms(1) by simp
  have um: "unat (mask k :: 64 word) = 2 ^ k - 1"
    using unat_minus_one [OF nz] p2 m by simp
  have sum: "unat (sz + mask k) = unat sz + (2 ^ k - 1)"
    using assms(2) um by (simp add: unat_add_lem [THEN iffD1])
  have "context_adjust_size (2 ^ k) sz = (sz + mask k) AND NOT (mask k)"
    by (simp only: context_adjust_size_def Let_def m)
  then show ?thesis
    by (simp only: unat_and_not_mask sum)
qed

text \<open>
  C7, as stated, fails: the sum \<open>size + mask\<close> is a \<^verbatim>\<open>size_t\<close> and wraps
  around. With 4 KiB pages the largest \<^verbatim>\<open>size_t\<close> is rounded to 0, which is
  below the requested size.
\<close>

theorem context_adjust_size_wraps:
  "context_adjust_size 4096 18446744073709551615 = 0
   \<and> \<not> (18446744073709551615 \<le> context_adjust_size 4096 18446744073709551615)"
  by (simp add: context_adjust_size_def)

text \<open>
  C7, amended: for a page size that is a power of two, \<open>2 ^ k\<close> with
  \<open>k < 64\<close>, and every requested size for which \<open>size + (page size - 1)\<close>
  does not exceed the range of \<^verbatim>\<open>size_t\<close>, the adjusted size is a multiple of
  the page size, is at least the requested size, is less than one page above
  it (so it is the next multiple), and equals the requested size when that is
  already a multiple of the page size.
\<close>

theorem context_adjust_size_rounds_up:
  assumes "k < 64" and "unat sz + (2 ^ k - 1) < 2 ^ 64"
  shows "2 ^ k dvd unat (context_adjust_size (2 ^ k) sz)
         \<and> sz \<le> context_adjust_size (2 ^ k) sz
         \<and> unat (context_adjust_size (2 ^ k) sz) < unat sz + 2 ^ k
         \<and> (2 ^ k dvd unat sz \<longrightarrow> context_adjust_size (2 ^ k) sz = sz)"
proof -
  let ?r = "(unat sz + (2 ^ k - 1)) - (unat sz + (2 ^ k - 1)) mod 2 ^ k"
  have pos: "(0::nat) < 2 ^ k" by simp
  have u: "unat (context_adjust_size (2 ^ k) sz) = ?r"
    by (rule adjust_unat [OF assms])
  have "2 ^ k dvd ?r" by (rule round_up_nat(1) [OF pos])
  moreover have "unat sz \<le> ?r" by (rule round_up_nat(2) [OF pos])
  moreover have "?r < unat sz + 2 ^ k" by (rule round_up_nat(3) [OF pos])
  moreover have "2 ^ k dvd unat sz \<longrightarrow> ?r = unat sz"
    using round_up_nat(4) [OF pos] by blast
  ultimately show ?thesis
    by (simp only: u [symmetric] word_le_nat_alt word_unat_eq_iff)
qed

theorem context_adjust_size_rounds_up_witness:
  "(12::nat) < 64 \<and> unat (12289::size_t) + (2 ^ 12 - 1) < 2 ^ 64
   \<and> 2 ^ 12 dvd unat (context_adjust_size (2 ^ 12) 12289)
   \<and> 12289 \<le> context_adjust_size (2 ^ 12) 12289
   \<and> unat (context_adjust_size (2 ^ 12) 12289) < unat (12289::size_t) + 2 ^ 12
   \<and> 2 ^ 12 dvd unat (4096::size_t) \<and> context_adjust_size (2 ^ 12) 4096 = 4096"
proof -
  have k: "(12::nat) < 64" by simp
  have a: "unat (12289::size_t) + (2 ^ 12 - 1) < 2 ^ 64" by simp
  have b: "unat (4096::size_t) + (2 ^ 12 - 1) < 2 ^ 64" by simp
  show ?thesis
    using k a context_adjust_size_rounds_up [OF k a] context_adjust_size_rounds_up [OF k b]
    by simp
qed

text \<open>The sizes named by the claim, with 4 KiB pages: one byte, one page, three pages and a byte.\<close>

lemma context_adjust_size_examples:
  "context_adjust_size 4096 1 = 4096"
  "context_adjust_size 4096 4096 = 4096"
  "context_adjust_size 4096 12289 = 16384"
  by (simp_all add: context_adjust_size_def)

subsection \<open>Initialisation\<close>

text \<open>
  The comparison \<^verbatim>\<open>env_stack_size > -1\<close> is between unsigned values and
  never holds, so \<^verbatim>\<open>task_stack_size\<close> keeps its previous value or becomes
  the page size, whatever the configuration provides.
\<close>

lemma context_init_task_stack_size:
  "task_stack_size (context_init pgsz env s)
     = (if task_stack_size s < pgsz then pgsz else task_stack_size s)"
  by (simp add: context_init_def Let_def)

text \<open>
  C3: with 4 KiB pages and a configured stack size of 64 KiB,
  \<^verbatim>\<open>context_init\<close> leaves the task stack size at the default of 16 KiB;
  the claim asks for the configured 64 KiB.
\<close>

theorem context_init_ignores_configuration:
  "task_stack_size (context_init 4096 65536 initial_state) = 16384
   \<and> task_stack_size (context_init 4096 65536 initial_state) \<noteq> 65536"
  by (simp add: context_init_def initial_state_def DEFAULT_TASK_STACK_SIZE_def)

subsection \<open>Switching between contexts\<close>

text \<open>
  What \<^verbatim>\<open>context_swap\<close> does up to the call of the switch primitive, for
  two contexts that exist: \<open>s2\<close> is the state in which the primitive is
  called.
\<close>

lemma context_swap_switch:
  assumes "USE_UCONTEXT p" and "heap s old_ctx = Some ob" and "heap s new_ctx = Some nb"
  shows "\<exists>s2.
           (ctx_fn ob \<noteq> None \<longrightarrow>
              (\<exists>ob2. heap s2 old_ctx = Some ob2 \<and> ctx_fn ob2 = None \<and> ctx_arg ob2 = None))
         \<and> (ctx_fn nb \<noteq> None \<longrightarrow>
              ctxlist s2 = Some new_ctx
              \<and> (\<exists>nb2. heap s2 new_ctx = Some nb2 \<and> next_fld nb2 = ctxlist s))
         \<and> (ctx_fn nb = None \<longrightarrow> ctxlist s2 = ctxlist s)
         \<and> context_swap p swapcontext old_ctx new_ctx s =
              (case swapcontext old_ctx new_ctx s2 of
                 (ret, s3) \<Rightarrow>
                   if ret = - 1
                   then Inr (DART_ERR_OTHER,
                             s3\<lparr>log := log s3 @ [Error ''Call to swapcontext failed!'']\<rparr>)
                   else Inr (DART_OK, s3))"
proof (cases "ctx_fn nb = None")
  case True
  show ?thesis
  proof (cases "ctx_fn ob = None")
    case True
    with \<open>ctx_fn nb = None\<close> assms show ?thesis
      by (intro exI [of _ s]) (simp add: context_swap_def)
  next
    case False
    with \<open>ctx_fn nb = None\<close> assms show ?thesis
      by (intro exI [of _ "s\<lparr>heap := (heap s)(old_ctx \<mapsto> ob\<lparr>ctx_fn := None, ctx_arg := None\<rparr>)\<rparr>"])
         (simp add: context_swap_def)
  qed
next
  case False
  let ?s1 = "s\<lparr>heap := (heap s)(new_ctx \<mapsto> nb\<lparr>next_fld := ctxlist s\<rparr>), ctxlist := Some new_ctx\<rparr>"
  have push: "DART_STACK_PUSH new_ctx s = Inr ?s1"
    using assms by (simp add: DART_STACK_PUSH_def)
  obtain ob1 where ob1: "heap ?s1 old_ctx = Some ob1" "ctx_fn ob1 = ctx_fn ob"
    using assms by (cases "old_ctx = new_ctx") auto
  show ?thesis
  proof (cases "ctx_fn ob = None")
    case True
    with False assms push ob1 show ?thesis
      by (intro exI [of _ ?s1]) (auto simp add: context_swap_def)
  next
    case nn: False
    with False assms push ob1 show ?thesis
      by (intro exI [of _ "?s1\<lparr>heap := (heap ?s1)(old_ctx \<mapsto> ob1\<lparr>ctx_fn := None, ctx_arg := None\<rparr>)\<rparr>"])
         (auto simp add: context_swap_def)
  qed
qed

text \<open>
  C5: for every pair of contexts, \<^verbatim>\<open>context_swap\<close> returns to its caller
  with a result, never an abort: \<^verbatim>\<open>DART_ERR_OTHER\<close> (after logging an
  error) when the switch primitive returns \<open>- 1\<close>, and \<^verbatim>\<open>DART_OK\<close> when
  the primitive succeeds.
\<close>

theorem context_swap_reports_result:
  assumes "USE_UCONTEXT p" and "heap s old_ctx = Some ob" and "heap s new_ctx = Some nb"
  shows "\<exists>s2 ret s3.
           swapcontext old_ctx new_ctx s2 = (ret, s3)
         \<and> context_swap p swapcontext old_ctx new_ctx s =
             Inr (if ret = - 1 then DART_ERR_OTHER else DART_OK,
                  if ret = - 1
                  then s3\<lparr>log := log s3 @ [Error ''Call to swapcontext failed!'']\<rparr>
                  else s3)"
proof -
  from context_swap_switch [OF assms, of swapcontext]
  obtain s2 where sw: "context_swap p swapcontext old_ctx new_ctx s =
              (case swapcontext old_ctx new_ctx s2 of
                 (ret, s3) \<Rightarrow>
                   if ret = - 1
                   then Inr (DART_ERR_OTHER,
                             s3\<lparr>log := log s3 @ [Error ''Call to swapcontext failed!'']\<rparr>)
                   else Inr (DART_OK, s3))"
    by blast
  obtain ret s3 where r: "swapcontext old_ctx new_ctx s2 = (ret, s3)"
    by (cases "swapcontext old_ctx new_ctx s2")
  show ?thesis
    by (intro exI [of _ s2] exI [of _ ret] exI [of _ s3]) (simp add: sw r)
qed

theorem context_swap_reports_result_witness:
  "(\<exists>s'. context_swap example_platform (\<lambda>_ _ x. (- 1, x)) 0x10000 0x20000 example_state
            = Inr (DART_ERR_OTHER, s'))
   \<and> (\<exists>s'. context_swap example_platform (\<lambda>_ _ x. (0, x)) 0x10000 0x20000 example_state
            = Inr (DART_OK, s'))"
proof -
  have p: "USE_UCONTEXT example_platform"
    by (simp add: example_platform_def)
  have o: "heap example_state 0x10000 = Some (example_block 0x10000 (Some 1))"
    by (simp add: example_state_def)
  have n: "heap example_state 0x20000 = Some (example_block 0x20000 (Some 2))"
    by (simp add: example_state_def)
  from context_swap_reports_result [OF p o n, of "\<lambda>_ _ x. (- 1, x)"]
  have a: "\<exists>s'. context_swap example_platform (\<lambda>_ _ x. (- 1, x)) 0x10000 0x20000 example_state
            = Inr (DART_ERR_OTHER, s')"
    by auto
  from context_swap_reports_result [OF p o n, of "\<lambda>_ _ x. (0, x)"]
  have b: "\<exists>s'. context_swap example_platform (\<lambda>_ _ x. (0, x)) 0x10000 0x20000 example_state
            = Inr (DART_OK, s')"
    by auto
  from a b show ?thesis by blast
qed

text \<open>
  C8: the switch primitive is called in a state \<open>s2\<close> in which, if
  \<open>old\<close> carried a pending entry function, both its entry function and its
  argument are cleared, and, if \<open>new\<close> carried a pending entry function, the
  block of \<open>new\<close> is the head of the thread's list, linked in front of the
  former head.
\<close>

theorem context_swap_prepares_switch:
  assumes "USE_UCONTEXT p" and "heap s old_ctx = Some ob" and "heap s new_ctx = Some nb"
  shows "\<exists>s2.
           context_swap p swapcontext old_ctx new_ctx s =
              (case swapcontext old_ctx new_ctx s2 of
                 (ret, s3) \<Rightarrow>
                   if ret = - 1
                   then Inr (DART_ERR_OTHER,
                             s3\<lparr>log := log s3 @ [Error ''Call to swapcontext failed!'']\<rparr>)
                   else Inr (DART_OK, s3))
         \<and> (ctx_fn ob \<noteq> None \<longrightarrow>
              (\<exists>ob2. heap s2 old_ctx = Some ob2 \<and> ctx_fn ob2 = None \<and> ctx_arg ob2 = None))
         \<and> (ctx_fn nb \<noteq> None \<longrightarrow>
              ctxlist s2 = Some new_ctx
              \<and> (\<exists>nb2. heap s2 new_ctx = Some nb2 \<and> next_fld nb2 = ctxlist s))"
  using context_swap_switch [OF assms, of swapcontext] by blast

theorem context_swap_prepares_switch_witness:
  "\<exists>s2. context_swap example_platform (\<lambda>_ _ x. (0, x)) 0x10000 0x20000 example_state
            = Inr (DART_OK, s2)
        \<and> (\<exists>ob2. heap s2 0x10000 = Some ob2 \<and> ctx_fn ob2 = None \<and> ctx_arg ob2 = None)
        \<and> ctxlist s2 = Some 0x20000
        \<and> (\<exists>nb2. heap s2 0x20000 = Some nb2 \<and> next_fld nb2 = None)"
proof -
  have p: "USE_UCONTEXT example_platform"
    by (simp add: example_platform_def)
  have o: "heap example_state 0x10000 = Some (example_block 0x10000 (Some 1))"
    by (simp add: example_state_def)
  have n: "heap example_state 0x20000 = Some (example_block 0x20000 (Some 2))"
    by (simp add: example_state_def)
  have f: "ctx_fn (example_block 0x10000 (Some 1)) \<noteq> None"
          "ctx_fn (example_block 0x20000 (Some 2)) \<noteq> None"
    by (simp_all add: example_block_def)
  have l: "ctxlist example_state = None"
    by (simp add: example_state_def)
  from context_swap_prepares_switch [OF p o n, of "\<lambda>_ _ x. (0, x)"] f l
  show ?thesis by simp
qed

text \<open>
  A context without a pending entry function is not put on the list again
  when it is given control: its activation resumes where it was suspended.
\<close>

lemma context_invoke_without_pending_entry:
  assumes "USE_UCONTEXT p" and "heap s ctx = Some b" and "ctx_fn b = None"
  shows "context_invoke p ctx s = Inr (ctx, s)"
  using assms by (simp add: context_invoke_def)

subsection \<open>Entry trampoline\<close>

text \<open>
  C4: when the thread's list holds a block with a pending entry function,
  the trampoline pops that block, and calls the entry function with the
  stored argument in a state \<open>s2\<close> where both fields of the block are already
  cleared; if the entry function returns, the process is aborted with the
  message that the invocation function returned.
\<close>

theorem context_entry_clears_before_call:
  assumes "ctxlist s = Some c" and "heap s c = Some b" and "ctx_fn b = Some f"
  shows "\<exists>s2.
           ctxlist s2 = next_fld b
         \<and> (\<exists>b2. heap s2 c = Some b2 \<and> ctx_fn b2 = None \<and> ctx_arg b2 = None)
         \<and> context_entry call s =
             (case call f (ctx_arg b) s2 of
                None \<Rightarrow> Control_Left
              | Some s3 \<Rightarrow>
                  Entry_Failed (Assertion ''task context invocation function returned!''))"
  using assms
  by (intro exI [of _ "s\<lparr>ctxlist := next_fld b,
                          heap := (heap s)(c \<mapsto> b\<lparr>next_fld := None, ctx_fn := None, ctx_arg := None\<rparr>)\<rparr>"])
     (simp add: context_entry_def DART_STACK_POP_def)

theorem context_entry_clears_before_call_witness:
  "context_entry (\<lambda>_ _ x. Some x) (example_state\<lparr>ctxlist := Some 0x10000\<rparr>)
     = Entry_Failed (Assertion ''task context invocation function returned!'')
   \<and> context_entry (\<lambda>_ _ x. None) (example_state\<lparr>ctxlist := Some 0x10000\<rparr>)
     = Control_Left"
proof -
  have l: "ctxlist (example_state\<lparr>ctxlist := Some 0x10000\<rparr>) = Some 0x10000"
    by simp
  have h: "heap (example_state\<lparr>ctxlist := Some 0x10000\<rparr>) 0x10000
             = Some (example_block 0x10000 (Some 1))"
    by (simp add: example_state_def)
  have f: "ctx_fn (example_block 0x10000 (Some 1)) = Some 1"
    by (simp add: example_block_def)
  from context_entry_clears_before_call [OF l h f, of "\<lambda>_ _ x. Some x"]
       context_entry_clears_before_call [OF l h f, of "\<lambda>_ _ x. None"]
  show ?thesis by auto
qed

text \<open>On an empty list the assertion on the popped block fails.\<close>

lemma context_entry_empty_list:
  assumes "ctxlist s = None"
  shows "context_entry call s = Entry_Failed (Assertion ''ctxlist != NULL'')"
  using assms by (simp add: context_entry_def DART_STACK_POP_def)

subsection \<open>Builds without ucontext support\<close>

text \<open>
  C10: without \<^verbatim>\<open>USE_UCONTEXT\<close>, \<^verbatim>\<open>context_create\<close> returns \<^verbatim>\<open>NULL\<close> and
  leaves the state as it was, and \<^verbatim>\<open>context_release\<close>, \<^verbatim>\<open>context_invoke\<close>,
  \<^verbatim>\<open>context_swap\<close> and \<^verbatim>\<open>context_cleanup\<close> each fail their assertion with
  the message that names the function.
\<close>

theorem without_ucontext_support:
  assumes "\<not> USE_UCONTEXT p"
  shows "context_create p os_alloc fn arg s = Inr (None, s)
       \<and> context_release p ctx s =
           Inl (Assertion ''Cannot call dart__tasking__context_release without UCONTEXT support!'')
       \<and> context_invoke p ctx s =
           Inl (Assertion ''Cannot call dart__tasking__context_invoke without UCONTEXT support!'')
       \<and> context_swap p swapcontext old_ctx new_ctx s =
           Inl (Assertion ''Cannot call dart__tasking__context_swap without UCONTEXT support!'')
       \<and> context_cleanup p s =
           Some (Inl (Assertion
             ''Cannot call dart__tasking__context_cleanup without UCONTEXT support!''))"
  using assms
  by (simp add: context_create_def context_release_def context_invoke_def context_swap_def
        context_cleanup_def)

theorem without_ucontext_support_witness:
  "context_create (example_platform\<lparr>USE_UCONTEXT := False\<rparr>) (\<lambda>_. None) (Some 1) None
      example_state = Inr (None, example_state)
   \<and> context_release (example_platform\<lparr>USE_UCONTEXT := False\<rparr>) 0x10000 example_state =
       Inl (Assertion ''Cannot call dart__tasking__context_release without UCONTEXT support!'')
   \<and> context_invoke (example_platform\<lparr>USE_UCONTEXT := False\<rparr>) 0x10000 example_state =
       Inl (Assertion ''Cannot call dart__tasking__context_invoke without UCONTEXT support!'')
   \<and> context_swap (example_platform\<lparr>USE_UCONTEXT := False\<rparr>) (\<lambda>_ _ x. (0, x))
       0x10000 0x20000 example_state =
       Inl (Assertion ''Cannot call dart__tasking__context_swap without UCONTEXT support!'')
   \<and> context_cleanup (example_platform\<lparr>USE_UCONTEXT := False\<rparr>) example_state =
       Some (Inl (Assertion
         ''Cannot call dart__tasking__context_cleanup without UCONTEXT support!''))"
proof -
  have p: "\<not> USE_UCONTEXT (example_platform\<lparr>USE_UCONTEXT := False\<rparr>)"
    by simp
  show ?thesis
    using without_ucontext_support [OF p] by simp
qed

subsection \<open>Paths through the list\<close>

text \<open>
  A block outside a path does not matter to it; the path from a pointer is
  unique; and a path that ends in \<^verbatim>\<open>NULL\<close> visits no block twice.
\<close>

lemma ctx_path_upd_other:
  "a \<notin> set as \<Longrightarrow> ctx_path (h(a := v)) p as = ctx_path h p as"
  by (induction as arbitrary: p) (auto split: option.splits)

lemma ctx_path_unique:
  "ctx_path h p as \<Longrightarrow> ctx_path h p bs \<Longrightarrow> as = bs"
proof (induction as arbitrary: p bs)
  case Nil
  then show ?case by (cases bs) auto
next
  case (Cons a as)
  then show ?case by (cases bs) (auto split: option.splits)
qed

lemma ctx_path_suffix:
  "ctx_path h p (xs @ a # ys) \<Longrightarrow> ctx_path h (Some a) (a # ys)"
proof (induction xs arbitrary: p)
  case Nil
  then show ?case by simp
next
  case (Cons x xs)
  from Cons.prems obtain b :: context_list_s where "ctx_path h (next_fld b) (xs @ a # ys)"
    by (auto split: option.splits)
  then show ?case by (rule Cons.IH)
qed

lemma ctx_path_distinct:
  "ctx_path h p as \<Longrightarrow> distinct as"
proof (induction as arbitrary: p)
  case Nil
  show ?case by simp
next
  case (Cons a as)
  from Cons.prems obtain b where b: "h a = Some b" and tl: "ctx_path h (next_fld b) as"
    by (auto split: option.splits)
  have "a \<notin> set as"
  proof
    assume "a \<in> set as"
    then obtain xs ys where split: "as = xs @ a # ys"
      by (auto dest: split_list)
    with tl have "ctx_path h (Some a) (a # ys)"
      by (auto dest: ctx_path_suffix)
    with b have "ctx_path h (next_fld b) ys" by simp
    with tl have "as = ys" by (rule ctx_path_unique)
    with split show False by simp
  qed
  with Cons.IH [OF tl] show ?case by simp
qed

subsection \<open>The example states\<close>

lemma example_created_by_create:
  "context_create example_platform (\<lambda>_. Some (0x10000, example_raw)) (Some 1) None
     (context_init 4096 0 initial_state) = Inr (Some 0x10000, example_created)"
  by (simp add: context_create_def context_allocate_def example_platform_def example_raw_def
        context_init_def initial_state_def DEFAULT_TASK_STACK_SIZE_def context_adjust_size_def
        Let_def example_created_def example_block_def)

lemma example_pooled_by_release:
  "context_release example_platform 0x10000 example_created = Inr example_pooled"
  by (simp add: context_release_def example_platform_def example_created_def example_pooled_def
        example_block_def STACK_GUARD_def DART_STACK_PUSH_def Let_def PER_THREAD_CTX_STORE_def)

subsection \<open>Reuse of pooled blocks\<close>

text \<open>
  C6: when the thread's list is not empty, \<^verbatim>\<open>context_create\<close> returns the
  context of the block at its head; the block keeps its stack region (its
  \<^verbatim>\<open>stack\<close> pointer and the stack pointer and size of its context), its
  \<^verbatim>\<open>length\<close> is 0, it carries the new function and argument, the rest of
  the list is what remains, the set of allocated blocks is unchanged, and
  the outcome is that of a run in which every allocation would fail: no
  memory is requested.
\<close>

theorem context_create_reuses_pooled_block:
  assumes "USE_UCONTEXT p" and "ctx_path (heap s) (ctxlist s) (c # rest)"
    and "heap s c = Some hb"
  shows "\<exists>s' b'.
           context_create p os_alloc fn arg s = Inr (Some c, s')
         \<and> heap s' c = Some b'
         \<and> stack b' = stack hb \<and> ctx_ss_sp b' = ctx_ss_sp hb \<and> ctx_ss_size b' = ctx_ss_size hb
         \<and> length_fld b' = 0
         \<and> ctx_fn b' = fn \<and> ctx_arg b' = arg \<and> ctx_uc b' = Uc_Entry
         \<and> ctx_path (heap s') (ctxlist s') rest
         \<and> dom (heap s') = dom (heap s)
         \<and> context_create p os_alloc fn arg s = context_create p (\<lambda>_. None) fn arg s"
proof -
  from assms(2,3) have hd: "ctxlist s = Some c" and tl: "ctx_path (heap s) (next_fld hb) rest"
    by auto
  from ctx_path_distinct [OF assms(2)] have nin: "c \<notin> set rest" by simp
  show ?thesis
    using assms(1,3) hd tl nin
    by (auto simp add: context_create_def Let_def ctx_path_upd_other)
qed

theorem context_create_reuses_pooled_block_witness:
  "\<exists>s' b'. context_create example_platform (\<lambda>_. None) (Some 7) None example_pooled
              = Inr (Some 0x10000, s')
          \<and> heap s' 0x10000 = Some b'
          \<and> stack b' = 0x11000 \<and> ctx_ss_sp b' = 0x11000
          \<and> length_fld b' = 0 \<and> ctx_fn b' = Some 7
          \<and> ctxlist s' = None"
proof -
  have p: "USE_UCONTEXT example_platform"
    by (simp add: example_platform_def)
  have h: "heap example_pooled 0x10000
             = Some ((example_block 0x10000 (Some 1))\<lparr>length_fld := 1\<rparr>)"
    by (simp add: example_pooled_def)
  have path: "ctx_path (heap example_pooled) (ctxlist example_pooled) [0x10000]"
    by (simp add: example_pooled_def example_block_def)
  from context_create_reuses_pooled_block [OF p path h, of "\<lambda>_. None" "Some 7" None]
  show ?thesis by (auto simp add: example_block_def)
qed

subsection \<open>The pool invariant\<close>

text \<open>
  \<^verbatim>\<open>context_create\<close> and \<^verbatim>\<open>context_release\<close> keep the depth counts, and
  \<^verbatim>\<open>context_release\<close> of an allocated block that is not in the pool always
  returns: it frees the block when the pool holds more than
  \<^verbatim>\<open>PER_THREAD_CTX_STORE\<close> blocks and pushes it otherwise.
\<close>

lemma depth_ok_upd_other:
  "a \<notin> set as \<Longrightarrow> depth_ok (h(a := v)) as = depth_ok h as"
  by (induction as) (auto split: option.splits)

lemma pool_inv_head:
  assumes "pool_inv s (a # as)"
  shows "ctxlist s = Some a \<and> (\<exists>b. heap s a = Some b \<and> length_fld b = int (length (a # as)))"
  using assms by (auto simp add: pool_inv_def split: option.splits)

lemma pool_inv_empty: "pool_inv s [] = (ctxlist s = None)"
  by (simp add: pool_inv_def)

lemma context_create_keeps_pool_inv:
  assumes "pool_inv s as" and "context_create p os_alloc fn arg s = Inr (Some c, s')"
  shows "pool_inv s' (tl as)
       \<and> heap s' c \<noteq> None
       \<and> (as \<noteq> [] \<longrightarrow> c = hd as)
       \<and> (\<forall>x. x \<noteq> c \<longrightarrow> heap s' x = heap s x)"
proof (cases as)
  case Nil
  with assms(1) have "ctxlist s = None" by (simp add: pool_inv_def)
  with assms(2) Nil show ?thesis
    by (auto simp add: context_create_def context_allocate_def pool_inv_def Let_def
          split: if_splits option.splits sum.splits prod.splits)
next
  case (Cons a rest)
  with assms(1) obtain hb where hd: "ctxlist s = Some a" and hb: "heap s a = Some hb"
    and tl: "ctx_path (heap s) (next_fld hb) rest" and d: "depth_ok (heap s) rest"
    by (auto simp add: pool_inv_def split: option.splits)
  from assms(1) have "ctx_path (heap s) (ctxlist s) as"
    by (simp add: pool_inv_def)
  then have "distinct as" by (rule ctx_path_distinct)
  with Cons have nin: "a \<notin> set rest" by simp
  from assms(2) hd hb tl d nin Cons show ?thesis
    by (auto simp add: context_create_def pool_inv_def Let_def ctx_path_upd_other
          depth_ok_upd_other split: if_splits)
qed


lemma context_release_keeps_pool_inv:
  assumes "USE_UCONTEXT p" and "pool_inv s as" and "heap s ctx = Some cb" and "ctx \<notin> set as"
  shows "\<exists>s'. context_release p ctx s = Inr s'
           \<and> (\<forall>x. x \<noteq> ctx \<longrightarrow> heap s' x = heap s x)
           \<and> (if int (length as) > PER_THREAD_CTX_STORE
               then pool_inv s' as \<and> heap s' ctx = None
               else pool_inv s' (ctx # as))"
proof (cases as)
  case Nil
  with assms(2) have "ctxlist s = None" by (simp add: pool_inv_def)
  with assms(1,3) Nil show ?thesis
    by (simp add: context_release_def DART_STACK_PUSH_def pool_inv_def Let_def
          PER_THREAD_CTX_STORE_def)
next
  case (Cons a rest)
  with assms(2) obtain hb where hd: "ctxlist s = Some a" and hb: "heap s a = Some hb"
    and len: "length_fld hb = int (length as)"
    and path: "ctx_path (heap s) (ctxlist s) as" and d: "depth_ok (heap s) as"
    by (auto simp add: pool_inv_def split: option.splits)
  from assms(4) Cons have ne: "ctx \<noteq> a" by auto
  show ?thesis
  proof (cases "int (length as) > PER_THREAD_CTX_STORE")
    case True
    with assms(1,3,4) hd hb len path d show ?thesis
      by (simp add: context_release_def context_free_def pool_inv_def Let_def
            ctx_path_upd_other depth_ok_upd_other)
  next
    case False
    with assms(1,3,4) hd hb len path d ne show ?thesis
      by (simp add: context_release_def DART_STACK_PUSH_def pool_inv_def Let_def
            ctx_path_upd_other depth_ok_upd_other)
  qed
qed

text \<open>
  On a list that ends in \<^verbatim>\<open>NULL\<close> the loop of \<^verbatim>\<open>context_cleanup\<close> ends: it
  frees exactly the blocks of the list and leaves the list empty.
\<close>

lemma cleanup_loop_frees_path:
  assumes "ctx_path (heap s) (ctxlist s) as"
  shows "\<exists>s'. cleanup_loop p s = Some (Inr s')
           \<and> ctxlist s' = None
           \<and> (\<forall>x. heap s' x = (if x \<in> set as then None else heap s x))"
  using assms
proof (induction as arbitrary: s)
  case Nil
  then show ?case by (subst cleanup_loop.simps) simp
next
  case (Cons a rest)
  from Cons.prems obtain b where hd: "ctxlist s = Some a" and b: "heap s a = Some b"
    and tl: "ctx_path (heap s) (next_fld b) rest"
    by (auto split: option.splits)
  from ctx_path_distinct [OF Cons.prems] have nin: "a \<notin> set rest" by simp
  let ?s1 = "s\<lparr>heap := (heap s)(a \<mapsto> b\<lparr>next_fld := None\<rparr>), ctxlist := next_fld b\<rparr>"
  have pop: "DART_STACK_POP s = Inr (Some a, ?s1)"
    using hd b by (simp add: DART_STACK_POP_def)
  obtain s2 where free: "context_free p a ?s1 = Inr s2"
    and h2: "heap s2 = (heap s)(a := None)" and l2: "ctxlist s2 = next_fld b"
    by (simp add: context_free_def Let_def)
  have "ctx_path (heap s2) (ctxlist s2) rest"
    using tl nin by (simp add: h2 l2 ctx_path_upd_other)
  from Cons.IH [OF this] obtain s' where r: "cleanup_loop p s2 = Some (Inr s')"
    and e: "ctxlist s' = None"
    and h: "\<forall>x. heap s' x = (if x \<in> set rest then None else heap s2 x)"
    by blast
  have "cleanup_loop p s = cleanup_loop p s2"
    by (subst cleanup_loop.simps) (simp add: hd pop free)
  with r e h h2 show ?case by auto
qed

text \<open>
  \<^verbatim>\<open>context_create\<close> hands out a block whose \<^verbatim>\<open>length\<close> is 0, whether it
  was popped from the pool or freshly allocated, and with a pool that is
  not empty it always returns the head of the pool.
\<close>

lemma context_create_zeroes_length:
  assumes "context_create p os_alloc fn arg s = Inr (Some c, s')"
  shows "\<exists>b. heap s' c = Some b \<and> length_fld b = 0"
  using assms
  by (auto simp add: context_create_def context_allocate_def Let_def
        split: if_splits option.splits sum.splits prod.splits)

lemma context_create_pops_head:
  assumes "USE_UCONTEXT p" and "pool_inv s (a # rest)"
  shows "\<exists>s'. context_create p os_alloc fn arg s = Inr (Some a, s')"
proof -
  from assms(2) obtain hb where "ctxlist s = Some a" and "heap s a = Some hb"
    by (auto simp add: pool_inv_def split: option.splits)
  with assms(1) show ?thesis
    by (simp add: context_create_def Let_def)
qed

text \<open>
  The pool depends on the list head and on the blocks of the pool only.
\<close>

lemma ctx_path_same_blocks:
  "\<forall>x\<in>set as. h' x = h x \<Longrightarrow> ctx_path h' p as = ctx_path h p as"
  by (induction as arbitrary: p) (auto split: option.splits)

lemma depth_ok_same_blocks:
  "\<forall>x\<in>set as. h' x = h x \<Longrightarrow> depth_ok h' as = depth_ok h as"
  by (induction as) (auto split: option.splits)

lemma pool_inv_frame:
  assumes "pool_inv s as" and "ctxlist s' = ctxlist s" and "\<forall>x\<in>set as. heap s' x = heap s x"
  shows "pool_inv s' as"
  using assms
  by (simp add: pool_inv_def ctx_path_same_blocks [of as "heap s'" "heap s"]
        depth_ok_same_blocks [of as "heap s'" "heap s"])

text \<open>
  The state in which the trampoline calls the task function: the head of
  the list is popped and its function and argument are cleared.
\<close>

lemma context_entry_handover:
  assumes "ctxlist s = Some c" and "heap s c = Some b" and "ctx_fn b = Some f"
  shows "context_entry call s =
           (case call f (ctx_arg b)
                   (s\<lparr>ctxlist := next_fld b,
                      heap := (heap s)(c \<mapsto> b\<lparr>next_fld := None, ctx_fn := None,
                                                ctx_arg := None\<rparr>)\<rparr>) of
              None \<Rightarrow> Control_Left
            | Some s3 \<Rightarrow> Entry_Failed (Assertion ''task context invocation function returned!''))"
  using assms by (simp add: context_entry_def DART_STACK_POP_def)

lemma entry_state_determined:
  assumes "ctxlist s1 = Some c" and "heap s1 c = Some b" and "ctx_fn b = Some g"
    and "\<forall>call. context_entry call s1 =
           (case call f a s2 of
              None \<Rightarrow> Control_Left
            | Some s3 \<Rightarrow> Entry_Failed (Assertion ''task context invocation function returned!''))"
  shows "s2 = s1\<lparr>ctxlist := next_fld b,
                 heap := (heap s1)(c \<mapsto> b\<lparr>next_fld := None, ctx_fn := None,
                                            ctx_arg := None\<rparr>)\<rparr>"
proof -
  let ?S = "s1\<lparr>ctxlist := next_fld b,
               heap := (heap s1)(c \<mapsto> b\<lparr>next_fld := None, ctx_fn := None,
                                          ctx_arg := None\<rparr>)\<rparr>"
  let ?call = "\<lambda>(_::fn_ptr) (_::addr option) x. if x = s2 then None else Some x"
  from assms(4) have "context_entry ?call s1 = Control_Left"
    by simp
  moreover have "context_entry ?call s1 =
      (case ?call g (ctx_arg b) ?S of
         None \<Rightarrow> Control_Left
       | Some s3 \<Rightarrow> Entry_Failed (Assertion ''task context invocation function returned!''))"
    by (rule context_entry_handover [OF assms(1-3)])
  ultimately show ?thesis
    by (simp split: if_splits)
qed

text \<open>
  A first activation through \<^verbatim>\<open>context_invoke\<close> and the trampoline changes
  the block of the activated context only and leaves the list as it was.
\<close>

lemma enter_by_invoke_frame:
  assumes "heap s ctx = Some cb" and "ctx_fn cb \<noteq> None"
    and "context_invoke p ctx s = Inr (ctx, s1)"
    and "\<forall>call. context_entry call s1 =
           (case call f a s2 of
              None \<Rightarrow> Control_Left
            | Some s3 \<Rightarrow> Entry_Failed (Assertion ''task context invocation function returned!''))"
  shows "ctxlist s2 = ctxlist s \<and> heap s2 ctx \<noteq> None
       \<and> (\<forall>x. x \<noteq> ctx \<longrightarrow> heap s2 x = heap s x)"
proof -
  from assms(2) obtain g where g: "ctx_fn cb = Some g" by auto
  let ?b = "cb\<lparr>next_fld := ctxlist s\<rparr>"
  from assms(1,2,3) have s1: "s1 = s\<lparr>heap := (heap s)(ctx \<mapsto> ?b), ctxlist := Some ctx\<rparr>"
    by (auto simp add: context_invoke_def DART_STACK_PUSH_def split: if_splits)
  have l: "ctxlist s1 = Some ctx" and h: "heap s1 ctx = Some ?b" and fb: "ctx_fn ?b = Some g"
    using g by (simp_all add: s1)
  from entry_state_determined [OF l h fb assms(4)] show ?thesis
    by (simp add: s1)
qed

text \<open>
  The state at the moment of a switch that succeeds: \<^verbatim>\<open>context_swap\<close> has
  changed the blocks of the two contexts only, and has pushed the new one
  if its entry function was pending.
\<close>

lemma context_swap_switch_state:
  assumes "context_swap p (\<lambda>_ _ x. (0, x)) old_ctx new_ctx s = Inr (r, s1)"
    and "heap s old_ctx = Some ob" and "heap s new_ctx = Some nb"
  shows "(\<forall>x. x \<noteq> old_ctx \<and> x \<noteq> new_ctx \<longrightarrow> heap s1 x = heap s x)
       \<and> heap s1 old_ctx \<noteq> None \<and> heap s1 new_ctx \<noteq> None
       \<and> (ctx_fn nb = None \<longrightarrow> ctxlist s1 = ctxlist s)
       \<and> (ctx_fn nb \<noteq> None \<and> old_ctx \<noteq> new_ctx \<longrightarrow>
            ctxlist s1 = Some new_ctx \<and> heap s1 new_ctx = Some (nb\<lparr>next_fld := ctxlist s\<rparr>))"
  using assms
  by (auto simp add: context_swap_def DART_STACK_PUSH_def Let_def split: if_splits)

lemma enter_by_swap_frame:
  assumes "heap s old_ctx = Some ob" and "heap s new_ctx = Some nb" and "ctx_fn nb \<noteq> None"
    and "old_ctx \<noteq> new_ctx"
    and "context_swap p (\<lambda>_ _ x. (0, x)) old_ctx new_ctx s = Inr (r, s1)"
    and "\<forall>call. context_entry call s1 =
           (case call f a s2 of
              None \<Rightarrow> Control_Left
            | Some s3 \<Rightarrow> Entry_Failed (Assertion ''task context invocation function returned!''))"
  shows "ctxlist s2 = ctxlist s \<and> heap s2 old_ctx \<noteq> None \<and> heap s2 new_ctx \<noteq> None
       \<and> (\<forall>x. x \<noteq> old_ctx \<and> x \<noteq> new_ctx \<longrightarrow> heap s2 x = heap s x)"
proof -
  from assms(3) obtain g where g: "ctx_fn nb = Some g" by auto
  let ?b = "nb\<lparr>next_fld := ctxlist s\<rparr>"
  from context_swap_switch_state [OF assms(5,1,2)] assms(3,4)
  have oth: "\<forall>x. x \<noteq> old_ctx \<and> x \<noteq> new_ctx \<longrightarrow> heap s1 x = heap s x"
    and o: "heap s1 old_ctx \<noteq> None"
    and l: "ctxlist s1 = Some new_ctx" and h: "heap s1 new_ctx = Some ?b"
    by simp_all
  have fb: "ctx_fn ?b = Some g" using g by simp
  from entry_state_determined [OF l h fb assms(6)] oth o assms(4) show ?thesis
    by simp
qed

text \<open>
  In every reachable state the pool is depth-counted, the contexts in use
  are allocated and outside the pool, and the pool holds at most
  \<^verbatim>\<open>PER_THREAD_CTX_STORE + 1\<close> blocks.
\<close>

lemma ctx_reach_invariant:
  assumes "ctx_reach p s L as"
  shows "pool_inv s as \<and> (\<forall>c\<in>L. heap s c \<noteq> None \<and> c \<notin> set as)
         \<and> int (length as) \<le> PER_THREAD_CTX_STORE + 1"
  using assms
proof (induction rule: ctx_reach.induct)
  case (start s)
  then show ?case by (simp add: pool_inv_def PER_THREAD_CTX_STORE_def)
next
  case (create s L as os_alloc fn arg c s')
  then have inv: "pool_inv s as" and live: "\<forall>c\<in>L. heap s c \<noteq> None \<and> c \<notin> set as"
    and bound: "int (length as) \<le> PER_THREAD_CTX_STORE + 1"
    by simp_all
  from context_create_keeps_pool_inv [OF inv create.hyps(2)]
  have a: "pool_inv s' (tl as)" and b: "heap s' c \<noteq> None"
    and c: "as \<noteq> [] \<longrightarrow> c = hd as" and d: "\<forall>x. x \<noteq> c \<longrightarrow> heap s' x = heap s x"
    by simp_all
  from inv have "distinct as"
    by (auto simp add: pool_inv_def dest: ctx_path_distinct)
  with c have "c \<notin> set (tl as)" by (cases as) auto
  moreover have "\<forall>x\<in>L. x \<notin> set (tl as)"
    using live by (cases as) auto
  moreover have "int (length (tl as)) \<le> PER_THREAD_CTX_STORE + 1"
    using bound by (cases as) auto
  ultimately show ?case using a b d live by auto
next
  case (enter s L as ctx cb s1 f a s2)
  then have inv: "pool_inv s as" and live: "\<forall>c\<in>L. heap s c \<noteq> None \<and> c \<notin> set as"
    and bound: "int (length as) \<le> PER_THREAD_CTX_STORE + 1"
    by simp_all
  from enter_by_invoke_frame [OF enter.hyps(3,4,5,6)]
  have l: "ctxlist s2 = ctxlist s" and c: "heap s2 ctx \<noteq> None"
    and oth: "\<forall>x. x \<noteq> ctx \<longrightarrow> heap s2 x = heap s x"
    by simp_all
  from live enter.hyps(2) have nin: "ctx \<notin> set as" by auto
  with oth have "\<forall>x\<in>set as. heap s2 x = heap s x" by auto
  from pool_inv_frame [OF inv l this] have "pool_inv s2 as" .
  moreover have "\<forall>c\<in>L. heap s2 c \<noteq> None \<and> c \<notin> set as"
    using live c oth by (metis)
  ultimately show ?case using bound by simp
next
  case (swap_resume s L as old_ctx new_ctx nb s1)
  then have inv: "pool_inv s as" and live: "\<forall>c\<in>L. heap s c \<noteq> None \<and> c \<notin> set as"
    and bound: "int (length as) \<le> PER_THREAD_CTX_STORE + 1"
    by simp_all
  from live swap_resume.hyps(2) obtain ob where ob: "heap s old_ctx = Some ob" by auto
  from context_swap_switch_state [OF swap_resume.hyps(6) ob swap_resume.hyps(4)]
       swap_resume.hyps(5)
  have oth: "\<forall>x. x \<noteq> old_ctx \<and> x \<noteq> new_ctx \<longrightarrow> heap s1 x = heap s x"
    and o: "heap s1 old_ctx \<noteq> None" and n: "heap s1 new_ctx \<noteq> None"
    and l: "ctxlist s1 = ctxlist s"
    by simp_all
  from live swap_resume.hyps(2,3) have nin: "old_ctx \<notin> set as" "new_ctx \<notin> set as" by auto
  with oth have "\<forall>x\<in>set as. heap s1 x = heap s x" by auto
  from pool_inv_frame [OF inv l this] have "pool_inv s1 as" .
  moreover have "\<forall>c\<in>L. heap s1 c \<noteq> None \<and> c \<notin> set as"
    using live o n oth by (metis)
  ultimately show ?case using bound by simp
next
  case (swap_enter s L as old_ctx new_ctx nb s1 f a s2)
  then have inv: "pool_inv s as" and live: "\<forall>c\<in>L. heap s c \<noteq> None \<and> c \<notin> set as"
    and bound: "int (length as) \<le> PER_THREAD_CTX_STORE + 1"
    by simp_all
  from live swap_enter.hyps(2) obtain ob where ob: "heap s old_ctx = Some ob" by auto
  from enter_by_swap_frame [OF ob swap_enter.hyps(5,6,4,7,8)]
  have l: "ctxlist s2 = ctxlist s" and o: "heap s2 old_ctx \<noteq> None"
    and n: "heap s2 new_ctx \<noteq> None"
    and oth: "\<forall>x. x \<noteq> old_ctx \<and> x \<noteq> new_ctx \<longrightarrow> heap s2 x = heap s x"
    by simp_all
  from live swap_enter.hyps(2,3) have nin: "old_ctx \<notin> set as" "new_ctx \<notin> set as" by auto
  with oth have "\<forall>x\<in>set as. heap s2 x = heap s x" by auto
  from pool_inv_frame [OF inv l this] have "pool_inv s2 as" .
  moreover have "\<forall>c\<in>L. heap s2 c \<noteq> None \<and> c \<notin> set as"
    using live o n oth by (metis)
  ultimately show ?case using bound by simp
next
  case (release s L as ctx s')
  then have inv: "pool_inv s as" and live: "\<forall>c\<in>L. heap s c \<noteq> None \<and> c \<notin> set as"
    and bound: "int (length as) \<le> PER_THREAD_CTX_STORE + 1"
    by simp_all
  from release.hyps(3) have uc: "USE_UCONTEXT p"
    by (auto simp add: context_release_def split: if_splits)
  from live release.hyps(2) obtain cb where cb: "heap s ctx = Some cb" and nin: "ctx \<notin> set as"
    by auto
  from context_release_keeps_pool_inv [OF uc inv cb nin] release.hyps(3)
  have oth: "\<forall>x. x \<noteq> ctx \<longrightarrow> heap s' x = heap s x"
    and res: "if int (length as) > PER_THREAD_CTX_STORE
              then pool_inv s' as \<and> heap s' ctx = None else pool_inv s' (ctx # as)"
    by auto
  show ?case
  proof (cases "int (length as) > PER_THREAD_CTX_STORE")
    case True
    with res have i: "pool_inv s' as" by simp
    have "ctxlist s' \<noteq> Some ctx"
    proof
      assume "ctxlist s' = Some ctx"
      with i have "ctx \<in> set as" by (cases as) (auto simp add: pool_inv_def)
      with nin show False by simp
    qed
    with i oth live bound show ?thesis by auto
  next
    case False
    with res have i: "pool_inv s' (ctx # as)" by simp
    then have "ctxlist s' = Some ctx" by (simp add: pool_inv_def)
    with i oth live False show ?thesis by auto
  qed
next
  case (cleanup s L as s')
  then have inv: "pool_inv s as" and live: "\<forall>c\<in>L. heap s c \<noteq> None \<and> c \<notin> set as"
    and bound: "int (length as) \<le> PER_THREAD_CTX_STORE + 1"
    by simp_all
  from cleanup.hyps(2) have uc: "USE_UCONTEXT p" and cl: "cleanup_loop p s = Some (Inr s')"
    by (auto simp add: context_cleanup_def split: if_splits)
  from inv have "ctx_path (heap s) (ctxlist s) as" by (simp add: pool_inv_def)
  from cleanup_loop_frees_path [OF this, of p] cl
  have "ctxlist s' = None" and "\<forall>x. heap s' x = (if x \<in> set as then None else heap s x)"
    by auto
  with live show ?case by (auto simp add: pool_inv_def PER_THREAD_CTX_STORE_def)
qed

text \<open>
  The example state with two pooled blocks is reached by three creations,
  the first activation of the context at \<open>0x10000\<close>, and the release of the
  contexts at \<open>0x10000\<close> and \<open>0x20000\<close>.
\<close>

lemma example_created2_by_create:
  "context_create example_platform (\<lambda>_. Some (0x20000, example_raw)) (Some 2) None
     example_created = Inr (Some 0x20000, example_created2)"
  by (simp add: context_create_def context_allocate_def example_platform_def example_raw_def
        context_adjust_size_def Let_def example_created_def example_created2_def
        example_block_def)

lemma example_created3_by_create:
  "context_create example_platform (\<lambda>_. Some (0x30000, example_raw)) (Some 3) None
     example_created2 = Inr (Some 0x30000, example_created3)"
  by (simp add: context_create_def context_allocate_def example_platform_def example_raw_def
        context_adjust_size_def Let_def example_created_def example_created2_def
        example_created3_def example_block_def)

lemma example_invoked_by_invoke:
  "context_invoke example_platform 0x10000 example_created3 = Inr (0x10000, example_invoked)"
  by (simp add: context_invoke_def DART_STACK_PUSH_def example_platform_def
        example_created_def example_created2_def example_created3_def example_invoked_def
        example_block_def)

lemma example_entered_by_entry:
  "\<forall>call. context_entry call example_invoked =
     (case call 1 None example_entered of
        None \<Rightarrow> Control_Left
      | Some s3 \<Rightarrow> Entry_Failed (Assertion ''task context invocation function returned!''))"
  by (simp add: context_entry_def DART_STACK_POP_def example_created_def example_created2_def
        example_created3_def example_invoked_def example_entered_def example_block_def)

lemma example_one_pooled_by_release:
  "context_release example_platform 0x10000 example_entered = Inr example_one_pooled"
  by (simp add: context_release_def example_platform_def example_created_def
        example_created2_def example_created3_def example_entered_def example_one_pooled_def
        example_block_def STACK_GUARD_def DART_STACK_PUSH_def Let_def PER_THREAD_CTX_STORE_def)

lemma example_two_pooled_by_release:
  "context_release example_platform 0x20000 example_one_pooled = Inr example_two_pooled"
  by (simp add: context_release_def example_platform_def example_created_def
        example_created2_def example_created3_def example_entered_def example_one_pooled_def
        example_two_pooled_def example_block_def STACK_GUARD_def DART_STACK_PUSH_def Let_def
        PER_THREAD_CTX_STORE_def)

lemma example_two_pooled_reached:
  "ctx_reach example_platform example_two_pooled {0x30000} [0x20000, 0x10000]"
proof -
  have r0: "ctx_reach example_platform (context_init 4096 0 initial_state) {} []"
    by (rule ctx_reach.start) (simp add: context_init_def initial_state_def Let_def)
  from ctx_reach.create [OF r0 example_created_by_create]
  have r1: "ctx_reach example_platform example_created {0x10000} []" by simp
  from ctx_reach.create [OF r1 example_created2_by_create]
  have r2: "ctx_reach example_platform example_created2 {0x20000, 0x10000} []" by simp
  from ctx_reach.create [OF r2 example_created3_by_create]
  have r3: "ctx_reach example_platform example_created3 {0x30000, 0x20000, 0x10000} []"
    by simp
  have h: "heap example_created3 0x10000 = Some (example_block 0x10000 (Some 1))"
    by (simp add: example_created3_def example_created2_def example_created_def)
  have f: "ctx_fn (example_block 0x10000 (Some 1)) \<noteq> None"
    by (simp add: example_block_def)
  from ctx_reach.enter [OF r3 _ h f example_invoked_by_invoke example_entered_by_entry]
  have r4: "ctx_reach example_platform example_entered {0x30000, 0x20000, 0x10000} []"
    by simp
  from ctx_reach.release [OF r4 _ example_one_pooled_by_release]
  have "ctx_reach example_platform example_one_pooled
          ({0x30000, 0x20000, 0x10000} - {0x10000}) [0x10000]"
    by (simp add: example_one_pooled_def)
  then have r5: "ctx_reach example_platform example_one_pooled {0x30000, 0x20000} [0x10000]"
    by (simp add: insert_Diff_if)
  from ctx_reach.release [OF r5 _ example_two_pooled_by_release]
  have "ctx_reach example_platform example_two_pooled
          ({0x30000, 0x20000} - {0x20000}) [0x20000, 0x10000]"
    by (simp add: example_two_pooled_def)
  then show ?thesis
    by (simp add: insert_Diff_if)
qed

text \<open>
  C9: in every state reached from an empty list by \<^verbatim>\<open>context_create\<close>,
  \<^verbatim>\<open>context_release\<close> and \<^verbatim>\<open>context_cleanup\<close>, with first activations and
  successful switches in between, the list from \<^verbatim>\<open>thread->ctxlist\<close> is the
  pool and the \<^verbatim>\<open>length\<close> field of the block at its head equals the number
  of blocks in the pool. In such a state, a \<^verbatim>\<open>context_create\<close> that returns
  a context returns the head of the pool, if there is one, with its
  \<^verbatim>\<open>length\<close> set to 0, and leaves the rest of the pool as the list. In a
  build with ucontext support, \<^verbatim>\<open>context_create\<close> on a pool that is not
  empty always returns; \<^verbatim>\<open>context_release\<close> of a context in use always
  returns, and either frees the block, when the pool holds more than
  \<^verbatim>\<open>PER_THREAD_CTX_STORE\<close> blocks, or pushes it with the previous pool size
  plus one as its \<^verbatim>\<open>length\<close>; and \<^verbatim>\<open>context_cleanup\<close> terminates, frees
  the blocks of the pool and leaves the list empty.
\<close>

theorem pool_length_is_depth:
  assumes "ctx_reach p s L as"
  shows "ctx_path (heap s) (ctxlist s) as
       \<and> (case as of
            [] \<Rightarrow> ctxlist s = None
          | a # _ \<Rightarrow> ctxlist s = Some a
                     \<and> (\<exists>b. heap s a = Some b \<and> length_fld b = int (length as)))
       \<and> (\<forall>os_alloc fn arg c s'.
            context_create p os_alloc fn arg s = Inr (Some c, s') \<longrightarrow>
              (as \<noteq> [] \<longrightarrow> c = hd as)
              \<and> (\<exists>b. heap s' c = Some b \<and> length_fld b = 0)
              \<and> ctx_path (heap s') (ctxlist s') (tl as))
       \<and> (USE_UCONTEXT p \<longrightarrow>
            (as \<noteq> [] \<longrightarrow>
               (\<forall>os_alloc fn arg.
                  \<exists>s'. context_create p os_alloc fn arg s = Inr (Some (hd as), s')))
          \<and> (\<forall>ctx\<in>L.
               \<exists>s'. context_release p ctx s = Inr s'
                  \<and> (if int (length as) > PER_THREAD_CTX_STORE
                     then heap s' ctx = None \<and> ctx_path (heap s') (ctxlist s') as
                     else ctxlist s' = Some ctx
                          \<and> (\<exists>b. heap s' ctx = Some b
                                  \<and> length_fld b = int (length as) + 1)
                          \<and> ctx_path (heap s') (ctxlist s') (ctx # as)))
          \<and> (\<exists>s'. context_cleanup p s = Some (Inr s') \<and> ctxlist s' = None
                  \<and> (\<forall>a\<in>set as. heap s' a = None)))"
proof -
  from ctx_reach_invariant [OF assms]
  have inv: "pool_inv s as" and live: "\<forall>c\<in>L. heap s c \<noteq> None \<and> c \<notin> set as"
    by simp_all
  from inv have path: "ctx_path (heap s) (ctxlist s) as"
    by (simp add: pool_inv_def)
  have head: "case as of
                [] \<Rightarrow> ctxlist s = None
              | a # _ \<Rightarrow> ctxlist s = Some a
                         \<and> (\<exists>b. heap s a = Some b \<and> length_fld b = int (length as))"
    using inv by (cases as) (auto simp add: pool_inv_def split: option.splits)
  have cr: "\<forall>os_alloc fn arg c s'.
              context_create p os_alloc fn arg s = Inr (Some c, s') \<longrightarrow>
                (as \<noteq> [] \<longrightarrow> c = hd as)
                \<and> (\<exists>b. heap s' c = Some b \<and> length_fld b = 0)
                \<and> ctx_path (heap s') (ctxlist s') (tl as)"
  proof (intro allI impI)
    fix os_alloc fn arg c s'
    assume c: "context_create p os_alloc fn arg s = Inr (Some c, s')"
    from context_create_keeps_pool_inv [OF inv c]
    have "pool_inv s' (tl as)" and "as \<noteq> [] \<longrightarrow> c = hd as" by simp_all
    with context_create_zeroes_length [OF c]
    show "(as \<noteq> [] \<longrightarrow> c = hd as)
          \<and> (\<exists>b. heap s' c = Some b \<and> length_fld b = 0)
          \<and> ctx_path (heap s') (ctxlist s') (tl as)"
      by (simp add: pool_inv_def)
  qed
  have uc: "(as \<noteq> [] \<longrightarrow>
               (\<forall>os_alloc fn arg.
                  \<exists>s'. context_create p os_alloc fn arg s = Inr (Some (hd as), s')))
          \<and> (\<forall>ctx\<in>L.
               \<exists>s'. context_release p ctx s = Inr s'
                  \<and> (if int (length as) > PER_THREAD_CTX_STORE
                     then heap s' ctx = None \<and> ctx_path (heap s') (ctxlist s') as
                     else ctxlist s' = Some ctx
                          \<and> (\<exists>b. heap s' ctx = Some b
                                  \<and> length_fld b = int (length as) + 1)
                          \<and> ctx_path (heap s') (ctxlist s') (ctx # as)))
          \<and> (\<exists>s'. context_cleanup p s = Some (Inr s') \<and> ctxlist s' = None
                  \<and> (\<forall>a\<in>set as. heap s' a = None))"
    if u: "USE_UCONTEXT p"
  proof (intro conjI)
    show "as \<noteq> [] \<longrightarrow>
            (\<forall>os_alloc fn arg.
               \<exists>s'. context_create p os_alloc fn arg s = Inr (Some (hd as), s'))"
    proof (cases as)
      case Nil
      then show ?thesis by simp
    next
      case (Cons a rest)
      with inv have "pool_inv s (a # rest)" by simp
      from context_create_pops_head [OF u this] Cons show ?thesis by simp
    qed
  next
    show "\<forall>ctx\<in>L.
            \<exists>s'. context_release p ctx s = Inr s'
               \<and> (if int (length as) > PER_THREAD_CTX_STORE
                  then heap s' ctx = None \<and> ctx_path (heap s') (ctxlist s') as
                  else ctxlist s' = Some ctx
                       \<and> (\<exists>b. heap s' ctx = Some b
                               \<and> length_fld b = int (length as) + 1)
                       \<and> ctx_path (heap s') (ctxlist s') (ctx # as))"
    proof
      fix ctx
      assume "ctx \<in> L"
      with live obtain cb where cb: "heap s ctx = Some cb" and nin: "ctx \<notin> set as"
        by auto
      from context_release_keeps_pool_inv [OF u inv cb nin]
      obtain s' where r: "context_release p ctx s = Inr s'"
        and res: "if int (length as) > PER_THREAD_CTX_STORE
                  then pool_inv s' as \<and> heap s' ctx = None else pool_inv s' (ctx # as)"
        by blast
      show "\<exists>s'. context_release p ctx s = Inr s'
               \<and> (if int (length as) > PER_THREAD_CTX_STORE
                  then heap s' ctx = None \<and> ctx_path (heap s') (ctxlist s') as
                  else ctxlist s' = Some ctx
                       \<and> (\<exists>b. heap s' ctx = Some b
                               \<and> length_fld b = int (length as) + 1)
                       \<and> ctx_path (heap s') (ctxlist s') (ctx # as))"
      proof (cases "int (length as) > PER_THREAD_CTX_STORE")
        case True
        with res r show ?thesis by (auto simp add: pool_inv_def)
      next
        case False
        with res have "pool_inv s' (ctx # as)" by simp
        then have "ctxlist s' = Some ctx"
          and "\<exists>b. heap s' ctx = Some b \<and> length_fld b = int (length as) + 1"
          and "ctx_path (heap s') (ctxlist s') (ctx # as)"
          by (auto simp add: pool_inv_def split: option.splits)
        with False r show ?thesis by auto
      qed
    qed
  next
    from cleanup_loop_frees_path [OF path, of p]
    obtain s' where "cleanup_loop p s = Some (Inr s')" and "ctxlist s' = None"
      and "\<forall>x. heap s' x = (if x \<in> set as then None else heap s x)"
      by blast
    with u show "\<exists>s'. context_cleanup p s = Some (Inr s') \<and> ctxlist s' = None
                    \<and> (\<forall>a\<in>set as. heap s' a = None)"
      by (auto simp add: context_cleanup_def)
  qed
  from path head cr uc show ?thesis by blast
qed

theorem pool_length_is_depth_witness:
  "ctx_reach example_platform example_two_pooled {0x30000} [0x20000, 0x10000]
   \<and> ctxlist example_two_pooled = Some 0x20000
   \<and> (\<exists>b. heap example_two_pooled 0x20000 = Some b \<and> length_fld b = 2)
   \<and> (\<exists>s' b. context_create example_platform (\<lambda>_. None) (Some 9) None example_two_pooled
                 = Inr (Some 0x20000, s')
             \<and> heap s' 0x20000 = Some b \<and> length_fld b = 0 \<and> ctxlist s' = Some 0x10000)
   \<and> (\<exists>s' b. context_release example_platform 0x30000 example_two_pooled = Inr s'
             \<and> ctxlist s' = Some 0x30000 \<and> heap s' 0x30000 = Some b \<and> length_fld b = 3)
   \<and> (\<exists>s'. context_cleanup example_platform example_two_pooled = Some (Inr s')
           \<and> ctxlist s' = None \<and> heap s' 0x20000 = None \<and> heap s' 0x10000 = None)"
proof -
  let ?P = example_platform and ?S = example_two_pooled
  note r = example_two_pooled_reached
  have u: "USE_UCONTEXT ?P" by (simp add: example_platform_def)
  note t = pool_length_is_depth [OF r]
  from t have head: "ctxlist ?S = Some 0x20000"
    "\<exists>b. heap ?S 0x20000 = Some b \<and> length_fld b = 2"
    by simp_all
  from t u have "\<forall>os_alloc fn arg.
                   \<exists>s'. context_create ?P os_alloc fn arg ?S = Inr (Some 0x20000, s')"
    by simp
  then obtain s1 where c1: "context_create ?P (\<lambda>_. None) (Some 9) None ?S
                              = Inr (Some 0x20000, s1)"
    by blast
  from t c1 have "(\<exists>b. heap s1 0x20000 = Some b \<and> length_fld b = 0)
                  \<and> ctx_path (heap s1) (ctxlist s1) (tl [0x20000, 0x10000])"
    by blast
  then have c2: "\<exists>b. heap s1 0x20000 = Some b \<and> length_fld b = 0 \<and> ctxlist s1 = Some 0x10000"
    by auto
  from t u have "\<exists>s'. context_release ?P 0x30000 ?S = Inr s'
                  \<and> (if int (length [0x20000::addr, 0x10000]) > PER_THREAD_CTX_STORE
                     then heap s' 0x30000 = None
                          \<and> ctx_path (heap s') (ctxlist s') [0x20000, 0x10000]
                     else ctxlist s' = Some 0x30000
                          \<and> (\<exists>b. heap s' 0x30000 = Some b
                                  \<and> length_fld b = int (length [0x20000::addr, 0x10000]) + 1)
                          \<and> ctx_path (heap s') (ctxlist s') [0x30000, 0x20000, 0x10000])"
    by simp
  then have rel: "\<exists>s' b. context_release ?P 0x30000 ?S = Inr s'
                    \<and> ctxlist s' = Some 0x30000 \<and> heap s' 0x30000 = Some b \<and> length_fld b = 3"
    by (auto simp add: PER_THREAD_CTX_STORE_def)
  from t u have cl: "\<exists>s'. context_cleanup ?P ?S = Some (Inr s') \<and> ctxlist s' = None
                       \<and> heap s' 0x20000 = None \<and> heap s' 0x10000 = None"
    by simp
  from r head c1 c2 rel cl show ?thesis by blast
qed

subsection \<open>Pool capacity\<close>

text \<open>
  Releasing distinct contexts that are in use fills the pool up to eleven
  blocks, one more than \<^verbatim>\<open>PER_THREAD_CTX_STORE\<close>, and no further.
\<close>

lemma release_all_retains:
  assumes "USE_UCONTEXT p" and "pool_inv s as" and "distinct cs" and "set cs \<inter> set as = {}"
    and "\<forall>c\<in>set cs. heap s c \<noteq> None" and "length as \<le> 11"
  shows "\<exists>s' as'. release_all p cs s = Inr s' \<and> pool_inv s' as'
           \<and> length as' = min (length as + length cs) 11"
  using assms(2-)
proof (induction cs arbitrary: s as)
  case Nil
  then show ?case by auto
next
  case (Cons c cs)
  from Cons.prems obtain cb where cb: "heap s c = Some cb" and nin: "c \<notin> set as"
    by auto
  from context_release_keeps_pool_inv [OF assms(1) Cons.prems(1) cb nin]
  obtain s1 where r: "context_release p c s = Inr s1"
    and oth: "\<forall>x. x \<noteq> c \<longrightarrow> heap s1 x = heap s x"
    and res: "if int (length as) > PER_THREAD_CTX_STORE
              then pool_inv s1 as \<and> heap s1 c = None else pool_inv s1 (c # as)"
    by blast
  let ?as1 = "if int (length as) > PER_THREAD_CTX_STORE then as else c # as"
  have inv1: "pool_inv s1 ?as1" using res by (simp split: if_splits)
  have d: "distinct cs" and disj: "set cs \<inter> set ?as1 = {}"
    using Cons.prems(2,3) by auto
  have live: "\<forall>x\<in>set cs. heap s1 x \<noteq> None"
    using Cons.prems(2,4) oth by auto
  have len: "length ?as1 \<le> 11"
    using Cons.prems(5) by (auto simp add: PER_THREAD_CTX_STORE_def)
  from Cons.IH [OF inv1 d disj live len]
  obtain s' as' where a: "release_all p cs s1 = Inr s'" and b: "pool_inv s' as'"
    and c: "length as' = min (length ?as1 + length cs) 11"
    by blast
  have "length as' = min (length as + length (c # cs)) 11"
    using c Cons.prems(5) by (auto simp add: PER_THREAD_CTX_STORE_def split: if_splits)
  with a b r show ?case by auto
qed

text \<open>
  C1: twelve contexts are released on a thread whose pool is empty. The
  test \<^verbatim>\<open>length > PER_THREAD_CTX_STORE\<close> lets the eleventh release through:
  eleven blocks are retained and only the twelfth is freed, where the claim
  asks for ten retained and two freed.
\<close>

theorem release_twelve_retains_eleven:
  "\<exists>s'. release_all (example_platform\<lparr>DART_DEBUG := False\<rparr>) example_contexts example_live_state = Inr s'
       \<and> ctx_path (heap s') (ctxlist s')
            [0xB0000, 0xA0000, 0x90000, 0x80000, 0x70000, 0x60000,
             0x50000, 0x40000, 0x30000, 0x20000, 0x10000]
       \<and> heap s' 0xC0000 = None"
  by (simp add: example_contexts_def example_live_state_def context_release_def
        example_platform_def example_block_def DART_STACK_PUSH_def context_free_def
        PER_THREAD_CTX_STORE_def Let_def)

subsection \<open>Stack guards\<close>

text \<open>
  In a diagnostic build without guard pages, a release that returns has
  logged the warning exactly when both guard words differ from the value
  written at creation.
\<close>

lemma context_release_guard_check:
  assumes "USE_UCONTEXT p" and "DART_DEBUG p" and "\<not> USE_MPROTECT p"
    and "heap s ctx = Some cb" and "context_release p ctx s = Inr s'"
  shows "log s' =
           (if mem64 s (ctx_ss_sp cb) \<noteq> STACK_GUARD
               \<and> mem64 s (ctx_ss_sp cb + task_stack_size s - 8) \<noteq> STACK_GUARD
            then log s @ [Warn ''Possible TASK STACK OVERFLOW detected!'']
            else log s)"
  using assms
  by (auto simp add: context_release_def context_free_def DART_STACK_PUSH_def Let_def
        split: option.splits if_splits)

text \<open>
  C2: \<^verbatim>\<open>context_create\<close> wrote both guard words of the context at
  \<open>0x10000\<close>. When only the lower or only the upper one is overwritten
  before \<^verbatim>\<open>context_release\<close>, the release returns and logs nothing, where
  the claim asks for a warning; the warning comes only when both are
  overwritten.
\<close>

theorem context_release_misses_one_overwritten_guard:
  "mem64 example_created 69632 = STACK_GUARD \<and> mem64 example_created 86008 = STACK_GUARD
   \<and> (\<exists>s'. context_release example_platform 0x10000
              (example_created\<lparr>mem64 := (mem64 example_created)(69632 := 0)\<rparr>) = Inr s'
           \<and> log s' = [])
   \<and> (\<exists>s'. context_release example_platform 0x10000
              (example_created\<lparr>mem64 := (mem64 example_created)(86008 := 0)\<rparr>) = Inr s'
           \<and> log s' = [])
   \<and> (\<exists>s'. context_release example_platform 0x10000
              (example_created\<lparr>mem64 := (mem64 example_created)(69632 := 0, 86008 := 0)\<rparr>) = Inr s'
           \<and> log s' = [Warn ''Possible TASK STACK OVERFLOW detected!''])"
  by (simp add: context_release_def example_platform_def example_created_def example_block_def
        STACK_GUARD_def DART_STACK_PUSH_def Let_def)

end
